theory Spec2Isabelle
  imports Main
begin

section \<open>The command-line parser of snap-confine (\<^verbatim>\<open>snap-confine-args.c\<close>)\<close>

text \<open>
  The embedding follows \<^verbatim>\<open>src/snap-confine-args.c\<close> line by line.

  \<^item> A C string is the \<open>string\<close> of its bytes before the terminating NUL;
    \<^verbatim>\<open>strcmp(a, b) == 0\<close> is equality of these byte lists.
  \<^item> A pointer that may be \<^verbatim>\<open>NULL\<close> is an \<open>option\<close>: \<open>None\<close> is \<^verbatim>\<open>NULL\<close>.
    A pointer to a cell (\<^verbatim>\<open>int *argcp\<close>, \<^verbatim>\<open>char ***argvp\<close>,
    \<^verbatim>\<open>struct sc_args **ptr\<close>) is \<open>Some v\<close> when it points to a cell that holds \<open>v\<close>;
    a function that writes through such a pointer returns the new contents of the cell.
  \<^item> The argument vector is the array of its slots, each slot a \<^verbatim>\<open>char *\<close> that may
    be \<^verbatim>\<open>NULL\<close>. An array as the C runtime hands it to \<^verbatim>\<open>main\<close> is
    \<open>map Some tokens @ [None]\<close> with \<open>argc = length tokens\<close>.
  \<^item> \<^verbatim>\<open>struct sc_args\<close> objects live in an explicit heap, addressed by natural numbers.
    The two strings a structure owns are kept inside it by value (\<^verbatim>\<open>strdup\<close> copies,
    and nothing else ever points to the copy).
  \<^item> Every call has one of three outcomes: it returns, it terminates the process through
    \<^verbatim>\<open>die\<close>, or it performs an invalid memory access (undefined behaviour in C).
  \<^item> \<^verbatim>\<open>argc\<close> is an \<open>int\<close>. The loop counters \<open>optind\<close> and \<open>i\<close> start at 1 and
    are incremented only while they are below \<^verbatim>\<open>argc\<close>, so they are \<open>nat\<close> and never
    overflow.
\<close>

subsection \<open>Outcomes, errors and the heap\<close>

text \<open>
  \<open>Died m\<close> is the call \<^verbatim>\<open>die(m)\<close> of \<^verbatim>\<open>utils.h\<close>, which ends the process with the
  message \<open>m\<close>; \<open>Fault\<close> is an invalid memory access.
\<close>

datatype 'a outcome = Fault | Died string | Returned 'a

text \<open>
  Modelled from the spec: the error domain \<^verbatim>\<open>SC_ARGS_DOMAIN\<close> and the error code
  \<^verbatim>\<open>SC_ARGS_ERR_USAGE\<close>, declared in \<^verbatim>\<open>snap-confine-args.h\<close>, and
  \<^verbatim>\<open>struct sc_error\<close>, declared in the error module; neither file is among the sources.
  The spec describes the error as ``a discriminated failure value with a stable domain
  tag and fields: a numeric code (0 = generic failure, or a usage-error code) and a
  human-readable message'', with ``two codes: generic failure (0) and usage error
  (non-zero)''. \<open>Code_0\<close> is the literal \<^verbatim>\<open>0\<close> that the source passes.
\<close>

datatype sc_error_domain = SC_ARGS_DOMAIN

datatype sc_error_code = Code_0 | SC_ARGS_ERR_USAGE

record sc_error =
  domain :: sc_error_domain
  code :: sc_error_code
  msg :: string

text \<open>
  Modelled from the spec: \<^verbatim>\<open>sc_error_init\<close> of the error module, which is not among
  the sources. It builds the error from the domain, the code and the formatted message
  (``each paired with a formatted message string''); the last argument here is the
  message after formatting, that is, the format string of the source with \<^verbatim>\<open>%s\<close>
  replaced by its argument.
\<close>

definition sc_error_init :: "sc_error_domain \<Rightarrow> sc_error_code \<Rightarrow> string \<Rightarrow> sc_error" where
  "sc_error_init d c m = \<lparr>domain = d, code = c, msg = m\<rparr>"

text \<open>
  Modelled from the spec: \<^verbatim>\<open>sc_error_forward\<close> of the error module, which is not among
  the sources. The entry point ``returns an owned result handle or a null/empty result
  paired with a populated error'' in ``an output error cell'': the function stores the
  local \<^verbatim>\<open>err\<close> in the cell \<^verbatim>\<open>errorp\<close> points to, and the value here is the new content
  of that cell.
\<close>

definition sc_error_forward :: "sc_error option \<Rightarrow> sc_error option" where
  "sc_error_forward err = err"

record sc_args =
  security_tag :: "string option"
  executable :: "string option"
  is_version_query :: bool
  is_classic_confinement :: bool

type_synonym addr = nat

text \<open>
  The heap: the live \<^verbatim>\<open>struct sc_args\<close> objects, the next address the allocator hands
  out, and the number of allocation requests that will still succeed. Since the first
  failed allocation ends the process, that number describes every behaviour of the
  allocator that the parser can observe.
\<close>

record heap =
  objs :: "addr \<Rightarrow> sc_args option"
  brk :: addr
  budget :: nat

text \<open>The structure \<^verbatim>\<open>calloc\<close> hands out: every byte zero.\<close>

definition zeroed :: sc_args where
  "zeroed = \<lparr>security_tag = None, executable = None,
              is_version_query = False, is_classic_confinement = False\<rparr>"

definition calloc_sc_args :: "heap \<Rightarrow> addr option \<times> heap" where
  "calloc_sc_args h =
     (if budget h = 0 then (None, h)
      else (Some (brk h),
            h\<lparr>objs := (objs h)(brk h \<mapsto> zeroed), brk := Suc (brk h), budget := budget h - 1\<rparr>))"

definition strdup :: "heap \<Rightarrow> string \<Rightarrow> string option \<times> heap" where
  "strdup h s =
     (if budget h = 0 then (None, h) else (Some s, h\<lparr>budget := budget h - 1\<rparr>))"

text \<open>\<^verbatim>\<open>free(p)\<close> for a structure: nothing for \<^verbatim>\<open>NULL\<close>, invalid for a pointer that is not live.\<close>

definition free_sc_args :: "heap \<Rightarrow> addr option \<Rightarrow> heap outcome" where
  "free_sc_args h p =
     (case p of
        None \<Rightarrow> Returned h
      | Some a \<Rightarrow>
          (case objs h a of
             None \<Rightarrow> Fault
           | Some s \<Rightarrow> Returned (h\<lparr>objs := (objs h)(a := None)\<rparr>)))"

text \<open>
  The pointers \<^verbatim>\<open>free\<close> accepts: \<^verbatim>\<open>NULL\<close>, and the address of a structure that was
  allocated and not freed since.
\<close>

definition live_or_NULL :: "heap \<Rightarrow> addr option \<Rightarrow> bool" where
  "live_or_NULL h p = (case p of None \<Rightarrow> True | Some a \<Rightarrow> objs h a \<noteq> None)"

subsection \<open>Release (\<^verbatim>\<open>sc_args_free\<close>, \<^verbatim>\<open>sc_cleanup_args\<close>) and the accessors\<close>

definition sc_args_free :: "heap \<Rightarrow> addr option \<Rightarrow> heap outcome" where
  "sc_args_free h args =
     (case args of
        None \<Rightarrow> Returned h
      | Some a \<Rightarrow>
          (case objs h a of
             None \<Rightarrow> Fault
           | Some s \<Rightarrow>
               free_sc_args
                 (h\<lparr>objs := (objs h)(a \<mapsto> s\<lparr>security_tag := None, executable := None\<rparr>)\<rparr>)
                 (Some a)))"

definition sc_cleanup_args :: "heap \<Rightarrow> addr option option \<Rightarrow> (heap \<times> addr option option) outcome" where
  "sc_cleanup_args h ptr =
     (case ptr of
        None \<Rightarrow> Fault
      | Some p \<Rightarrow>
          (case sc_args_free h p of
             Fault \<Rightarrow> Fault
           | Died m \<Rightarrow> Died m
           | Returned h' \<Rightarrow> Returned (h', Some None)))"

definition sc_args_is_version_query :: "heap \<Rightarrow> addr option \<Rightarrow> bool outcome" where
  "sc_args_is_version_query h args =
     (case args of
        None \<Rightarrow> Died ''cannot obtain version query flag from NULL argument parser''
      | Some a \<Rightarrow> (case objs h a of None \<Rightarrow> Fault | Some s \<Rightarrow> Returned (is_version_query s)))"

definition sc_args_is_classic_confinement :: "heap \<Rightarrow> addr option \<Rightarrow> bool outcome" where
  "sc_args_is_classic_confinement h args =
     (case args of
        None \<Rightarrow> Died ''cannot obtain classic confinement flag from NULL argument parser''
      | Some a \<Rightarrow>
          (case objs h a of None \<Rightarrow> Fault | Some s \<Rightarrow> Returned (is_classic_confinement s)))"

definition sc_args_security_tag :: "heap \<Rightarrow> addr option \<Rightarrow> string option outcome" where
  "sc_args_security_tag h args =
     (case args of
        None \<Rightarrow> Died ''cannot obtain security tag from NULL argument parser''
      | Some a \<Rightarrow> (case objs h a of None \<Rightarrow> Fault | Some s \<Rightarrow> Returned (security_tag s)))"

definition sc_args_executable :: "heap \<Rightarrow> addr option \<Rightarrow> string option outcome" where
  "sc_args_executable h args =
     (case args of
        None \<Rightarrow> Died ''cannot obtain executable from NULL argument parser''
      | Some a \<Rightarrow> (case objs h a of None \<Rightarrow> Fault | Some s \<Rightarrow> Returned (executable s)))"

subsection \<open>The parser (\<^verbatim>\<open>sc_nonfatal_parse_args\<close>)\<close>

text \<open>
  \<^verbatim>\<open>strrchr(s, c)\<close> for \<open>c\<close> other than NUL: the suffix of \<open>s\<close> that starts at the last
  occurrence of \<open>c\<close>, or \<^verbatim>\<open>NULL\<close>.
\<close>

fun strrchr :: "string \<Rightarrow> char \<Rightarrow> string option" where
  "strrchr [] c = None"
| "strrchr (x # xs) c =
     (case strrchr xs c of
        Some r \<Rightarrow> Some r
      | None \<Rightarrow> if x = c then Some (x # xs) else None)"

text \<open>Lines 64 to 73: is the program called through the \<^verbatim>\<open>ubuntu-core-launcher\<close> symlink?\<close>

definition called_as_launcher :: "string \<Rightarrow> bool" where
  "called_as_launcher argv0 =
     (case strrchr argv0 (CHR ''/'') of
        None \<Rightarrow> False
      | Some basename \<Rightarrow> tl basename = ''ubuntu-core-launcher'')"

text \<open>\<^verbatim>\<open>s[0] == '-'\<close>; the first byte of the empty string is the NUL.\<close>

definition starts_with_minus :: "string \<Rightarrow> bool" where
  "starts_with_minus s = (case s of [] \<Rightarrow> False | c # cs \<Rightarrow> c = CHR ''-'')"

text \<open>
  Reading the string in slot \<open>k\<close> of the argument vector. \<open>None\<close> stands for the reads
  that are invalid in C: beyond the array, or through a \<^verbatim>\<open>NULL\<close> slot. A cell
  \<^verbatim>\<open>*argvp\<close> that holds \<^verbatim>\<open>NULL\<close> is the empty array, of which every read is invalid.
\<close>

definition argv_at :: "string option list \<Rightarrow> nat \<Rightarrow> string option" where
  "argv_at argv k = (if k < length argv then argv ! k else None)"

text \<open>
  One pass through the body of the scanning loop (lines 77 to 121) at position
  \<open>optind\<close>. The pass ends in one of three ways: it goes on to the next position
  (by \<^verbatim>\<open>continue\<close> or by reaching the end of the body), it leaves the loop by
  \<^verbatim>\<open>break\<close>, or it jumps to the label \<^verbatim>\<open>out\<close> with an error. Each carries the heap of
  that moment, the first two also the local \<open>ignore_first_tag\<close>.
\<close>

datatype control = Next heap bool | Break heap bool | Goto_out sc_error heap

definition loop_body ::
  "heap \<Rightarrow> addr \<Rightarrow> string option list \<Rightarrow> bool \<Rightarrow> nat \<Rightarrow> control outcome" where
  "loop_body h args argv ignore_first_tag optind =
     (case argv_at argv optind of
        None \<Rightarrow> Fault
      | Some tok \<Rightarrow>
          if starts_with_minus tok then
            (if tok = ''--version'' then
               (case objs h args of
                  None \<Rightarrow> Fault
                | Some s \<Rightarrow>
                    Returned (Break (h\<lparr>objs := (objs h)(args \<mapsto> s\<lparr>is_version_query := True\<rparr>)\<rparr>)
                                ignore_first_tag))
             else if tok = ''--classic'' then
               (case objs h args of
                  None \<Rightarrow> Fault
                | Some s \<Rightarrow>
                    Returned (Next (h\<lparr>objs := (objs h)(args \<mapsto> s\<lparr>is_classic_confinement := True\<rparr>)\<rparr>)
                                ignore_first_tag))
             else
               Returned (Goto_out (sc_error_init SC_ARGS_DOMAIN SC_ARGS_ERR_USAGE
                                     (''unrecognized command line option: '' @ tok)) h))
          else
            (case objs h args of
               None \<Rightarrow> Fault
             | Some s \<Rightarrow>
                 if security_tag s = None then
                   (if ignore_first_tag then Returned (Next h False)
                    else
                      (case strdup h tok of
                         (None, h') \<Rightarrow> Died ''cannot allocate memory for security tag''
                       | (Some t, h') \<Rightarrow>
                           Returned (Next (h'\<lparr>objs := (objs h')(args \<mapsto> s\<lparr>security_tag := Some t\<rparr>)\<rparr>)
                                       ignore_first_tag)))
                 else if executable s = None then
                   (case strdup h tok of
                      (None, h') \<Rightarrow> Died ''cannot allocate memory for executable name''
                    | (Some e, h') \<Rightarrow>
                        Returned (Break (h'\<lparr>objs := (objs h')(args \<mapsto> s\<lparr>executable := Some e\<rparr>)\<rparr>)
                                    ignore_first_tag))
                 else Returned (Next h ignore_first_tag)))"

text \<open>
  The scanning loop of lines 76 to 122, entered with the current value of \<open>optind\<close>.
  It is left either by the jump to \<^verbatim>\<open>out\<close>, or at its end (by its condition or by
  \<^verbatim>\<open>break\<close>) with the locals \<open>ignore_first_tag\<close> and \<open>optind\<close>.
\<close>

datatype loop_exit = Jumped_out sc_error heap | Loop_end heap bool nat

function parse_loop ::
  "heap \<Rightarrow> addr \<Rightarrow> int \<Rightarrow> string option list \<Rightarrow> bool \<Rightarrow> nat \<Rightarrow> loop_exit outcome" where
  "parse_loop h args argc argv ignore_first_tag optind =
     (if int optind < argc then
        (case loop_body h args argv ignore_first_tag optind of
           Fault \<Rightarrow> Fault
         | Died m \<Rightarrow> Died m
         | Returned (Next h' ign') \<Rightarrow> parse_loop h' args argc argv ign' (Suc optind)
         | Returned (Break h' ign') \<Rightarrow> Returned (Loop_end h' ign' optind)
         | Returned (Goto_out err h') \<Rightarrow> Returned (Jumped_out err h'))
      else Returned (Loop_end h ignore_first_tag optind))"
  by pat_completeness auto
termination
  by (relation "measure (\<lambda>(h, args, argc, argv, ign, optind). nat argc - optind)") auto

declare parse_loop.simps [simp del]

text \<open>
  The shifting loop of lines 141 to 143, entered with the current value of \<open>i\<close>. It
  returns the array and the value of \<open>i\<close> at the end of the loop.
\<close>

function shift_loop ::
  "int \<Rightarrow> nat \<Rightarrow> string option list \<Rightarrow> nat \<Rightarrow> (string option list \<times> nat) outcome" where
  "shift_loop argc optind argv i =
     (if int (optind + i) < argc then
        (if optind + i < length argv \<and> i < length argv then
           shift_loop argc optind (argv[i := argv ! (optind + i)]) (Suc i)
         else Fault)
      else Returned (argv, i))"
  by pat_completeness auto
termination
  by (relation "measure (\<lambda>(argc, optind, argv, i). nat argc - (optind + i))") auto

declare shift_loop.simps [simp del]

text \<open>
  What the caller finds after the call: the returned handle, the contents of the three
  cells (argument count, argument vector, error), and the heap.
\<close>

record parse_result =
  ret :: "addr option"
  argc_cell :: "int option"
  argv_cell :: "string option list option"
  error_cell :: "sc_error option"
  heap_after :: heap

text \<open>
  The label \<^verbatim>\<open>out\<close> (lines 150 to 157), reached with the heap, the locals \<open>args\<close> and
  \<open>err\<close>, and the current contents of the two cells.
\<close>

definition out_label ::
  "heap \<Rightarrow> addr option \<Rightarrow> sc_error option \<Rightarrow> int option \<Rightarrow> string option list option
     \<Rightarrow> parse_result outcome" where
  "out_label h args err argcp argvp =
     (case (if err \<noteq> None then sc_cleanup_args h (Some args) else Returned (h, Some args)) of
        Fault \<Rightarrow> Fault
      | Died m \<Rightarrow> Died m
      | Returned (h', cell) \<Rightarrow>
          (case cell of
             None \<Rightarrow> Fault
           | Some args' \<Rightarrow>
               Returned \<lparr>ret = args', argc_cell = argcp, argv_cell = argvp,
                         error_cell = sc_error_forward err, heap_after = h'\<rparr>))"

text \<open>
  Lines 57 to 122: allocate the result, detect the legacy name, scan. The result is that
  of the scanning loop, together with the address of the structure.
\<close>

definition scan ::
  "heap \<Rightarrow> int \<Rightarrow> string option list \<Rightarrow> (addr \<times> loop_exit) outcome" where
  "scan h argc argv =
     (case calloc_sc_args h of
        (None, h1) \<Rightarrow> Died ''cannot allocate memory for command line arguments object''
      | (Some a, h1) \<Rightarrow>
          (case argv_at argv 0 of
             None \<Rightarrow> Fault
           | Some argv0 \<Rightarrow>
               (case parse_loop h1 a argc argv (called_as_launcher argv0) 1 of
                  Fault \<Rightarrow> Fault
                | Died m \<Rightarrow> Died m
                | Returned r \<Rightarrow> Returned (a, r))))"

text \<open>Lines 124 to 137: the error of the validation, if any.\<close>

definition validate :: "sc_args \<Rightarrow> sc_error option" where
  "validate s =
     (if is_version_query s = False then
        (if security_tag s = None then
           Some (sc_error_init SC_ARGS_DOMAIN SC_ARGS_ERR_USAGE
                   ''application or hook security tag was not provided'')
         else if executable s = None then
           Some (sc_error_init SC_ARGS_DOMAIN SC_ARGS_ERR_USAGE
                   ''executable name was not provided'')
         else None)
      else None)"

text \<open>Lines 140 to 148: shift the vector, terminate it, and the new count.\<close>

definition shift :: "int \<Rightarrow> nat \<Rightarrow> string option list \<Rightarrow> (string option list \<times> int) outcome" where
  "shift argc optind argv =
     (case shift_loop argc optind argv 1 of
        Fault \<Rightarrow> Fault
      | Died m \<Rightarrow> Died m
      | Returned (argv', i) \<Rightarrow>
          if i < length argv' then Returned (argv'[i := None], argc - int optind) else Fault)"

definition sc_nonfatal_parse_args ::
  "heap \<Rightarrow> int option \<Rightarrow> string option list option \<Rightarrow> parse_result outcome" where
  "sc_nonfatal_parse_args h argcp argvp =
     (case (argcp, argvp) of
        (Some argc, Some argv) \<Rightarrow>
          if argc = 0 then
            out_label h None
              (Some (sc_error_init SC_ARGS_DOMAIN Code_0 ''cannot parse arguments, argc is zero''))
              argcp argvp
          else
            (case scan h argc argv of
               Fault \<Rightarrow> Fault
             | Died m \<Rightarrow> Died m
             | Returned (a, Jumped_out err h2) \<Rightarrow> out_label h2 (Some a) (Some err) argcp argvp
             | Returned (a, Loop_end h2 ign optind) \<Rightarrow>
                 (case objs h2 a of
                    None \<Rightarrow> Fault
                  | Some s \<Rightarrow>
                      (case validate s of
                         Some err \<Rightarrow> out_label h2 (Some a) (Some err) argcp argvp
                       | None \<Rightarrow>
                           (case shift argc optind argv of
                              Fault \<Rightarrow> Fault
                            | Died m \<Rightarrow> Died m
                            | Returned (argv', argc') \<Rightarrow>
                                out_label h2 (Some a) None (Some argc') (Some argv')))))
      | _ \<Rightarrow>
          out_label h None
            (Some (sc_error_init SC_ARGS_DOMAIN Code_0
                     ''cannot parse arguments, argc or argv are NULL''))
            argcp argvp)"

section \<open>The scanning loop\<close>

text \<open>
  The proofs about \<open>parse_loop\<close> go through one induction rule: a run that reaches the
  end of the loop either does not enter the body, or leaves it by \<^verbatim>\<open>break\<close>, or makes
  one pass and goes on from the next position.
\<close>

lemmas body_splits = if_splits option.splits prod.splits

lemma parse_loop_end_induct [consumes 1, case_names stop break step]:
  assumes run: "parse_loop h a argc argv ign i = Returned (Loop_end h2 ign2 optind)"
    and stop: "\<And>h ign i. \<not> int i < argc \<Longrightarrow> h2 = h \<Longrightarrow> ign2 = ign \<Longrightarrow> optind = i \<Longrightarrow> P h ign i"
    and break: "\<And>h ign i. int i < argc \<Longrightarrow> loop_body h a argv ign i = Returned (Break h2 ign2)
                 \<Longrightarrow> optind = i \<Longrightarrow> P h ign i"
    and step: "\<And>h ign i h' ign'. int i < argc \<Longrightarrow> loop_body h a argv ign i = Returned (Next h' ign')
                 \<Longrightarrow> parse_loop h' a argc argv ign' (Suc i) = Returned (Loop_end h2 ign2 optind)
                 \<Longrightarrow> P h' ign' (Suc i) \<Longrightarrow> P h ign i"
  shows "P h ign i"
  using assms
proof (induction h a argc argv ign i rule: parse_loop.induct)
  case (1 h args argc argv ign i)
  note unf = parse_loop.simps[of h args argc argv ign i]
  show ?case
  proof (cases "int i < argc")
    case False
    with "1.prems" show ?thesis
      by (intro "1.prems"(2)) (simp_all add: unf)
  next
    case True
    show ?thesis
    proof (cases "loop_body h args argv ign i")
      case Fault
      with True "1.prems"(1) show ?thesis by (simp add: unf)
    next
      case (Died m)
      with True "1.prems"(1) show ?thesis by (simp add: unf)
    next
      case (Returned c)
      show ?thesis
      proof (cases c)
        case (Next h' ign')
        with True Returned "1.prems"(1)
        have rest: "parse_loop h' args argc argv ign' (Suc i) = Returned (Loop_end h2 ign2 optind)"
          by (simp add: unf)
        have "P h' ign' (Suc i)"
          using True Returned Next rest "1.prems"(2-4) "1.IH"
          by blast
        with True Returned Next rest show ?thesis
          by (intro "1.prems"(4)[of i h ign h' ign']) auto
      next
        case (Break h' ign')
        with True Returned "1.prems"(1) show ?thesis
          by (intro "1.prems"(3)) (simp_all add: unf)
      next
        case (Goto_out e h')
        with True Returned "1.prems"(1) show ?thesis by (simp add: unf)
      qed
    qed
  qed
qed

subsection \<open>Single steps\<close>

lemma parse_loop_stop:
  "\<not> int i < argc \<Longrightarrow> parse_loop h a argc argv ign i = Returned (Loop_end h ign i)"
  by (subst parse_loop.simps) simp

lemma parse_loop_Break:
  "int i < argc \<Longrightarrow> loop_body h a argv ign i = Returned (Break h' ign')
     \<Longrightarrow> parse_loop h a argc argv ign i = Returned (Loop_end h' ign' i)"
  by (subst parse_loop.simps) simp

lemma parse_loop_Goto_out:
  "int i < argc \<Longrightarrow> loop_body h a argv ign i = Returned (Goto_out err h')
     \<Longrightarrow> parse_loop h a argc argv ign i = Returned (Jumped_out err h')"
  by (subst parse_loop.simps) simp

lemma parse_loop_Next:
  "int i < argc \<Longrightarrow> loop_body h a argv ign i = Returned (Next h' ign')
     \<Longrightarrow> parse_loop h a argc argv ign i = parse_loop h' a argc argv ign' (Suc i)"
  by (subst parse_loop.simps) simp

subsection \<open>One pass through the body\<close>

lemma loop_body_Next:
  assumes "loop_body h a argv ign i = Returned (Next h' ign')"
  shows "\<exists>s s' tok. objs h a = Some s \<and> objs h' a = Some s' \<and> argv_at argv i = Some tok
            \<and> tok \<noteq> ''--version''
            \<and> is_version_query s' = is_version_query s
            \<and> executable s' = executable s
            \<and> (is_classic_confinement s' \<longleftrightarrow> is_classic_confinement s \<or> tok = ''--classic'')
            \<and> (security_tag s' = security_tag s \<or> security_tag s = None \<and> security_tag s' = Some tok)"
  using assms
  by (auto simp: loop_body_def strdup_def starts_with_minus_def split: body_splits)

lemma loop_body_Break:
  assumes "loop_body h a argv ign i = Returned (Break h' ign')"
  shows "\<exists>s s' tok. objs h a = Some s \<and> objs h' a = Some s' \<and> argv_at argv i = Some tok
            \<and> tok \<noteq> ''--classic''
            \<and> is_classic_confinement s' = is_classic_confinement s
            \<and> security_tag s' = security_tag s
            \<and> (tok = ''--version'' \<and> is_version_query s' \<and> executable s' = executable s
                 \<or> tok \<noteq> ''--version'' \<and> is_version_query s' = is_version_query s \<and> security_tag s \<noteq> None
                    \<and> executable s = None \<and> executable s' = Some tok)"
  using assms
  by (auto simp: loop_body_def strdup_def starts_with_minus_def split: body_splits)

subsection \<open>What a run to the end of the loop preserves and records\<close>

lemma parse_loop_live:
  assumes "parse_loop h a argc argv ign i = Returned (Loop_end h2 ign2 optind)"
    and "objs h a \<noteq> None"
  shows "objs h2 a \<noteq> None"
  using assms
proof (induction rule: parse_loop_end_induct)
  case (stop h ign i)
  then show ?case by simp
next
  case (break h ign i)
  from loop_body_Break[OF break.hyps(2)] show ?case by blast
next
  case (step h ign i h' ign')
  from loop_body_Next[OF step.hyps(2)] have "objs h' a \<noteq> None" by blast
  then show ?case by (rule step.IH)
qed

lemma parse_loop_optind:
  assumes "parse_loop h a argc argv ign i = Returned (Loop_end h2 ign2 optind)"
  shows "i \<le> optind"
  using assms
  by (induction rule: parse_loop_end_induct) simp_all

lemma ex_from_split:
  assumes "Suc i \<le> n"
  shows "(\<exists>k. i \<le> k \<and> k < n \<and> Q k) \<longleftrightarrow> Q i \<or> (\<exists>k. Suc i \<le> k \<and> k < n \<and> Q k)"
proof
  assume "\<exists>k. i \<le> k \<and> k < n \<and> Q k"
  then obtain k where k: "i \<le> k" "k < n" "Q k" by blast
  show "Q i \<or> (\<exists>k. Suc i \<le> k \<and> k < n \<and> Q k)"
  proof (cases "k = i")
    case True
    with k show ?thesis by simp
  next
    case False
    with k have "Suc i \<le> k" by simp
    with k show ?thesis by blast
  qed
next
  assume "Q i \<or> (\<exists>k. Suc i \<le> k \<and> k < n \<and> Q k)"
  then show "\<exists>k. i \<le> k \<and> k < n \<and> Q k"
  proof
    assume "Q i"
    with assms show ?thesis by auto
  next
    assume "\<exists>k. Suc i \<le> k \<and> k < n \<and> Q k"
    then obtain k where "Suc i \<le> k" "k < n" "Q k" by blast
    then have "i \<le> k \<and> k < n \<and> Q k" by simp
    then show ?thesis ..
  qed
qed

lemma parse_loop_classic:
  assumes "parse_loop h a argc argv ign i = Returned (Loop_end h2 ign2 optind)"
    and "objs h a = Some s" and "objs h2 a = Some s2"
  shows "is_classic_confinement s2 \<longleftrightarrow>
           is_classic_confinement s \<or> (\<exists>k. i \<le> k \<and> k < optind \<and> argv_at argv k = Some ''--classic'')"
  using assms
proof (induction arbitrary: s rule: parse_loop_end_induct)
  case (stop h ign i)
  then show ?case by auto
next
  case (break h ign i)
  from loop_body_Break[OF break.hyps(2)] break.prems
  have "is_classic_confinement s2 = is_classic_confinement s" by auto
  then show ?case using break.hyps(3) by auto
next
  case (step h ign i h' ign')
  from loop_body_Next[OF step.hyps(2)]
  obtain s0 s' tok where "objs h a = Some s0" and s': "objs h' a = Some s'" and tok: "argv_at argv i = Some tok"
    and cl0: "is_classic_confinement s' \<longleftrightarrow> is_classic_confinement s0 \<or> tok = ''--classic''"
    by blast
  with step.prems(1) have cl: "is_classic_confinement s' \<longleftrightarrow> is_classic_confinement s \<or> tok = ''--classic''"
    by simp
  have le: "Suc i \<le> optind" using step.hyps(3) by (rule parse_loop_optind)
  have "is_classic_confinement s2 \<longleftrightarrow>
          is_classic_confinement s' \<or> (\<exists>k. Suc i \<le> k \<and> k < optind \<and> argv_at argv k = Some ''--classic'')"
    using s' step.prems(2) by (rule step.IH)
  also have "\<dots> \<longleftrightarrow> is_classic_confinement s \<or> (\<exists>k. i \<le> k \<and> k < optind \<and> argv_at argv k = Some ''--classic'')"
  proof -
    have "(\<exists>k. i \<le> k \<and> k < optind \<and> argv_at argv k = Some ''--classic'') \<longleftrightarrow>
          tok = ''--classic'' \<or> (\<exists>k. Suc i \<le> k \<and> k < optind \<and> argv_at argv k = Some ''--classic'')"
      using ex_from_split[OF le, of "\<lambda>k. argv_at argv k = Some ''--classic''"] tok by simp
    with cl show ?thesis by blast
  qed
  finally show ?case .
qed

text \<open>
  A run that changed the version-query flag or the executable was left by \<^verbatim>\<open>break\<close>,
  so it stopped below \<^verbatim>\<open>argc\<close>.
\<close>

lemma parse_loop_break_below:
  assumes "parse_loop h a argc argv ign i = Returned (Loop_end h2 ign2 optind)"
    and "objs h a = Some s" and "objs h2 a = Some s2"
    and "is_version_query s2 \<noteq> is_version_query s \<or> executable s2 \<noteq> executable s"
  shows "int optind < argc"
  using assms
proof (induction arbitrary: s rule: parse_loop_end_induct)
  case (stop h ign i)
  then show ?case by simp
next
  case (break h ign i)
  then show ?case by simp
next
  case (step h ign i h' ign')
  from loop_body_Next[OF step.hyps(2)]
  obtain s0 s' where "objs h a = Some s0" and s': "objs h' a = Some s'"
    and "is_version_query s' = is_version_query s0" and "executable s' = executable s0"
    by blast
  with step.prems(1,3)
  have "is_version_query s2 \<noteq> is_version_query s' \<or> executable s2 \<noteq> executable s'"
    by simp
  with s' step.prems(2) show ?case by (rule step.IH)
qed

text \<open>
  The two strings are copies of slots of the vector: the security tag of a slot the scan
  passed, the executable of the slot where it stopped.
\<close>

lemma parse_loop_security_tag:
  assumes "parse_loop h a argc argv ign i = Returned (Loop_end h2 ign2 optind)"
    and "objs h a = Some s" and "objs h2 a = Some s2"
    and "security_tag s2 = Some t"
  shows "security_tag s = Some t
           \<or> (\<exists>k. i \<le> k \<and> k < optind \<and> int k < argc \<and> argv_at argv k = Some t)"
  using assms
proof (induction arbitrary: s rule: parse_loop_end_induct)
  case (stop h ign i)
  then show ?case by simp
next
  case (break h ign i)
  from loop_body_Break[OF break.hyps(2)] break.prems
  show ?case by auto
next
  case (step h ign i h' ign')
  from loop_body_Next[OF step.hyps(2)]
  obtain s0 s' tok where "objs h a = Some s0" and s': "objs h' a = Some s'"
    and tok: "argv_at argv i = Some tok"
    and tg0: "security_tag s' = security_tag s0 \<or> security_tag s0 = None \<and> security_tag s' = Some tok"
    by blast
  with step.prems(1)
  have tg: "security_tag s' = security_tag s \<or> security_tag s = None \<and> security_tag s' = Some tok"
    by simp
  have le: "Suc i \<le> optind" using step.hyps(3) by (rule parse_loop_optind)
  from s' step.prems(2,3)
  have "security_tag s' = Some t
          \<or> (\<exists>k. Suc i \<le> k \<and> k < optind \<and> int k < argc \<and> argv_at argv k = Some t)"
    by (rule step.IH)
  then show ?case
  proof
    assume st: "security_tag s' = Some t"
    from tg show ?thesis
    proof
      assume "security_tag s' = security_tag s"
      with st show ?thesis by simp
    next
      assume "security_tag s = None \<and> security_tag s' = Some tok"
      with st have "tok = t" by simp
      with tok le step.hyps(1) have "i \<le> i \<and> i < optind \<and> int i < argc \<and> argv_at argv i = Some t"
        by simp
      then show ?thesis by blast
    qed
  next
    assume "\<exists>k. Suc i \<le> k \<and> k < optind \<and> int k < argc \<and> argv_at argv k = Some t"
    then obtain k where "Suc i \<le> k" "k < optind" "int k < argc" "argv_at argv k = Some t" by blast
    then have "i \<le> k \<and> k < optind \<and> int k < argc \<and> argv_at argv k = Some t" by simp
    then show ?thesis by blast
  qed
qed

lemma parse_loop_executable:
  assumes "parse_loop h a argc argv ign i = Returned (Loop_end h2 ign2 optind)"
    and "objs h a = Some s" and "objs h2 a = Some s2"
    and "executable s2 = Some e"
  shows "executable s = Some e \<or> (int optind < argc \<and> argv_at argv optind = Some e)"
  using assms
proof (induction arbitrary: s rule: parse_loop_end_induct)
  case (stop h ign i)
  then show ?case by simp
next
  case (break h ign i)
  from loop_body_Break[OF break.hyps(2)] break.prems break.hyps(1,3)
  show ?case by auto
next
  case (step h ign i h' ign')
  from loop_body_Next[OF step.hyps(2)]
  obtain s0 s' where "objs h a = Some s0" and s': "objs h' a = Some s'"
    and "executable s' = executable s0"
    by blast
  with step.prems(1) have ex: "executable s' = executable s" by simp
  from s' step.prems(2,3)
  have "executable s' = Some e \<or> (int optind < argc \<and> argv_at argv optind = Some e)"
    by (rule step.IH)
  with ex show ?case by simp
qed

text \<open>
  A scan that runs over the first \<open>k\<close> slots without leaving the loop is the
  beginning of the scan of any longer vector.
\<close>

lemma parse_loop_prefix:
  assumes "parse_loop h a argc' argv ign i = Returned (Loop_end h2 ign2 k)"
    and "argc' = int k" and "int k \<le> argc"
  shows "parse_loop h a argc argv ign i = parse_loop h2 a argc argv ign2 k"
  using assms
proof (induction rule: parse_loop_end_induct)
  case (stop h ign i)
  then show ?case by simp
next
  case (break h ign i)
  then show ?case by simp
next
  case (step h ign i h' ign')
  from step.hyps(1) step.prems have "int i < argc" by simp
  then have "parse_loop h a argc argv ign i = parse_loop h' a argc argv ign' (Suc i)"
    using step.hyps(2) by (simp add: parse_loop.simps[of h a argc argv ign i])
  also have "\<dots> = parse_loop h2 a argc argv ign2 k"
    using step.prems by (rule step.IH)
  finally show ?case .
qed

section \<open>The shifting loop\<close>

text \<open>
  When the loop returns, every slot from \<open>i\<close> on whose source lies below \<^verbatim>\<open>argc\<close> holds
  what stood \<open>optind\<close> slots further up; the other slots are untouched.
\<close>

lemma shift_loop_Returned:
  assumes "shift_loop argc optind argv i = Returned (argv', i')"
  shows "length argv' = length argv
           \<and> i' = (if int (optind + i) < argc then nat argc - optind else i)
           \<and> (int (optind + i) < argc \<longrightarrow> nat argc \<le> length argv)
           \<and> (\<forall>j < length argv.
                 argv' ! j = (if i \<le> j \<and> int (optind + j) < argc then argv ! (optind + j) else argv ! j))"
  using assms
proof (induction argc optind argv i rule: shift_loop.induct)
  case (1 argc optind argv i)
  note unf = shift_loop.simps[of argc optind argv i]
  show ?case
  proof (cases "int (optind + i) < argc")
    case False
    with "1.prems" have "argv' = argv" "i' = i" by (simp_all add: unf)
    with False show ?thesis by auto
  next
    case True
    with "1.prems" have bounds: "optind + i < length argv" "i < length argv"
      by (auto simp: unf split: if_splits)
    let ?argv1 = "argv[i := argv ! (optind + i)]"
    from True bounds "1.prems" have rest: "shift_loop argc optind ?argv1 (Suc i) = Returned (argv', i')"
      by (simp add: unf)
    from "1.IH"[OF True _ rest] bounds
    have IH: "length argv' = length ?argv1"
      "i' = (if int (optind + Suc i) < argc then nat argc - optind else Suc i)"
      "int (optind + Suc i) < argc \<longrightarrow> nat argc \<le> length ?argv1"
      "\<forall>j < length ?argv1. argv' ! j =
         (if Suc i \<le> j \<and> int (optind + j) < argc then ?argv1 ! (optind + j) else ?argv1 ! j)"
      by simp_all
    have len: "length argv' = length argv" using IH(1) by simp
    have i': "i' = nat argc - optind"
      using IH(2) True by (auto split: if_splits)
    have le: "nat argc \<le> length argv"
      using IH(3) True bounds by (cases "int (optind + Suc i) < argc") auto
    have nth: "argv' ! j = (if i \<le> j \<and> int (optind + j) < argc then argv ! (optind + j) else argv ! j)"
      if "j < length argv" for j
    proof -
      from IH(4) that
      have *: "argv' ! j = (if Suc i \<le> j \<and> int (optind + j) < argc then ?argv1 ! (optind + j) else ?argv1 ! j)"
        by simp
      show ?thesis
      proof (cases "j = i")
        case True
        with * bounds \<open>int (optind + i) < argc\<close> show ?thesis by simp
      next
        case False
        then have "?argv1 ! j = argv ! j" by simp
        moreover have "?argv1 ! (optind + j) = argv ! (optind + j)" if "Suc i \<le> j"
          using that by simp
        ultimately show ?thesis using * False by auto
      qed
    qed
    from len i' le nth True show ?thesis by simp
  qed
qed

lemma shift_loop_total:
  assumes "argc \<le> int (length argv)"
  shows "\<exists>argv' i'. shift_loop argc optind argv i = Returned (argv', i')"
  using assms
proof (induction argc optind argv i rule: shift_loop.induct)
  case (1 argc optind argv i)
  note unf = shift_loop.simps[of argc optind argv i]
  show ?case
  proof (cases "int (optind + i) < argc")
    case False
    then show ?thesis by (simp add: unf)
  next
    case True
    with "1.prems" have bounds: "optind + i < length argv \<and> i < length argv" by linarith
    from "1.prems" have "argc \<le> int (length (argv[i := argv ! (optind + i)]))" by simp
    from "1.IH"[OF True bounds this] True bounds show ?thesis by (simp add: unf)
  qed
qed

lemma shift_Returned:
  assumes sh: "shift argc optind argv = Returned (argv', argc')"
    and pos: "1 \<le> optind" and below: "int optind < argc"
  shows "argc' = argc - int optind"
    and "length argv' = length argv"
    and "nat argc - optind < length argv"
    and "take (Suc (nat argc - optind)) argv'
           = argv ! 0 # drop (Suc optind) (take (nat argc) argv) @ [None]"
    and "drop (Suc (nat argc - optind)) argv' = drop (Suc (nat argc - optind)) argv"
proof -
  define n where "n = nat argc - optind"
  from sh obtain argv1 i1 where loop: "shift_loop argc optind argv 1 = Returned (argv1, i1)"
    and i1: "i1 < length argv1" and argv': "argv' = argv1[i1 := None]"
    and c: "argc' = argc - int optind"
    by (auto simp: shift_def split: outcome.splits if_splits)
  from shift_loop_Returned[OF loop]
  have len1: "length argv1 = length argv"
    and i1_eq: "i1 = (if int (optind + 1) < argc then nat argc - optind else 1)"
    and le: "int (optind + 1) < argc \<longrightarrow> nat argc \<le> length argv"
    and nth1: "\<And>j. j < length argv \<Longrightarrow>
         argv1 ! j = (if 1 \<le> j \<and> int (optind + j) < argc then argv ! (optind + j) else argv ! j)"
    by simp_all
  have n1: "1 \<le> n" unfolding n_def using below by linarith
  have i1n: "i1 = n" using i1_eq below by (auto simp: n_def)
  have nlen: "n < length argv" using i1 i1n len1 by simp
  have mn: "min (nat argc) (length argv) - Suc optind = n - 1"
  proof (cases "int (optind + 1) < argc")
    case True
    with le show ?thesis by (simp add: n_def min_def)
  next
    case False
    with below have "nat argc = Suc optind" by linarith
    then show ?thesis by (simp add: n_def)
  qed
  show "argc' = argc - int optind" by (rule c)
  show "length argv' = length argv" using argv' len1 by simp
  show "nat argc - optind < length argv" using nlen by (simp add: n_def)
  have "take (Suc n) argv' = argv ! 0 # drop (Suc optind) (take (nat argc) argv) @ [None]"
  proof (rule nth_equalityI)
    show "length (take (Suc n) argv') =
            length (argv ! 0 # drop (Suc optind) (take (nat argc) argv) @ [None])"
      using nlen n1 mn argv' len1 by simp
  next
    fix j assume "j < length (take (Suc n) argv')"
    then have j: "j < Suc n" by simp
    have lhs: "take (Suc n) argv' ! j = (if j = n then None else argv1 ! j)"
      using j nlen argv' i1n len1 by (simp add: nth_list_update)
    consider "j = 0" | "1 \<le> j" "j < n" | "j = n" using j by linarith
    then show "take (Suc n) argv' ! j =
                 (argv ! 0 # drop (Suc optind) (take (nat argc) argv) @ [None]) ! j"
    proof cases
      case 1
      from nlen have "0 < length argv" by (cases argv) simp_all
      from nth1[OF this] have "argv1 ! 0 = argv ! 0" by simp
      with 1 lhs n1 show ?thesis by simp
    next
      case 2
      then have in_range: "int (optind + j) < argc" unfolding n_def by linarith
      then have lt: "optind + j < nat argc" by linarith
      have "j < length argv" using 2 nlen by simp
      with nth1[of j] 2 in_range have a1: "argv1 ! j = argv ! (optind + j)" by simp
      have dlen: "length (drop (Suc optind) (take (nat argc) argv)) = n - 1"
        using mn by simp
      have "(argv ! 0 # drop (Suc optind) (take (nat argc) argv) @ [None]) ! j
              = (drop (Suc optind) (take (nat argc) argv) @ [None]) ! (j - 1)"
        using 2 by (simp add: nth_Cons')
      also have "\<dots> = drop (Suc optind) (take (nat argc) argv) ! (j - 1)"
      proof -
        from 2 have "j - 1 < n - 1" by linarith
        with dlen show ?thesis by (simp add: nth_append)
      qed
      also have "\<dots> = argv ! (optind + j)"
      proof -
        from 2 have jn: "j - 1 < n - 1" by linarith
        with mn have "Suc optind \<le> min (nat argc) (length argv)" by linarith
        then have "Suc optind \<le> length (take (nat argc) argv)" by simp
        then have "drop (Suc optind) (take (nat argc) argv) ! (j - 1)
                     = take (nat argc) argv ! (Suc optind + (j - 1))"
          by simp
        also have "Suc optind + (j - 1) = optind + j" using 2 by simp
        also have "take (nat argc) argv ! (optind + j) = argv ! (optind + j)"
          using lt by simp
        finally show ?thesis .
      qed
      finally show ?thesis using lhs 2 a1 by simp
    next
      case 3
      have dlen: "length (drop (Suc optind) (take (nat argc) argv)) = n - 1"
        using mn by simp
      have "(argv ! 0 # drop (Suc optind) (take (nat argc) argv) @ [None]) ! n = None"
        using n1 dlen by (simp add: nth_Cons' nth_append)
      with lhs 3 show ?thesis by simp
    qed
  qed
  then show "take (Suc (nat argc - optind)) argv'
           = argv ! 0 # drop (Suc optind) (take (nat argc) argv) @ [None]"
    by (simp add: n_def)
  have "drop (Suc n) argv' = drop (Suc n) argv"
  proof (rule nth_equalityI)
    show "length (drop (Suc n) argv') = length (drop (Suc n) argv)"
      using argv' len1 by simp
  next
    fix j assume "j < length (drop (Suc n) argv')"
    then have j: "Suc n + j < length argv" using argv' len1 by simp
    have "\<not> int (optind + (Suc n + j)) < argc" unfolding n_def by linarith
    with nth1[OF j] have "argv1 ! (Suc n + j) = argv ! (Suc n + j)" by simp
    then show "drop (Suc n) argv' ! j = drop (Suc n) argv ! j"
      using j argv' len1 i1n by simp
  qed
  then show "drop (Suc (nat argc - optind)) argv' = drop (Suc (nat argc - optind)) argv"
    by (simp add: n_def)
qed

lemma shift_total:
  assumes "argc \<le> int (length argv)" and "1 \<le> optind" and "2 \<le> length argv"
  shows "\<exists>argv'. shift argc optind argv = Returned (argv', argc - int optind)"
proof -
  from shift_loop_total[OF assms(1)] obtain argv1 i1
    where loop: "shift_loop argc optind argv 1 = Returned (argv1, i1)" by blast
  from shift_loop_Returned[OF loop]
  have "length argv1 = length argv"
    and "i1 = (if int (optind + 1) < argc then nat argc - optind else 1)" by simp_all
  with assms have "i1 < length argv1" by (auto split: if_splits)
  with loop show ?thesis by (simp add: shift_def)
qed

section \<open>The phases of the parser\<close>

lemma accessor_Returned:
  "sc_args_is_version_query h (Some a) = Returned b \<longleftrightarrow> (\<exists>s. objs h a = Some s \<and> is_version_query s = b)"
  "sc_args_is_classic_confinement h (Some a) = Returned b \<longleftrightarrow> (\<exists>s. objs h a = Some s \<and> is_classic_confinement s = b)"
  "sc_args_security_tag h (Some a) = Returned t \<longleftrightarrow> (\<exists>s. objs h a = Some s \<and> security_tag s = t)"
  "sc_args_executable h (Some a) = Returned e \<longleftrightarrow> (\<exists>s. objs h a = Some s \<and> executable s = e)"
  by (simp_all add: sc_args_is_version_query_def sc_args_is_classic_confinement_def
      sc_args_security_tag_def sc_args_executable_def split: option.splits)

lemma argv_at_Some: "argv_at argv k = Some x \<longleftrightarrow> k < length argv \<and> argv ! k = Some x"
  by (simp add: argv_at_def)

lemma in_set_slots:
  "x \<in> set (drop m (take n xs)) \<longleftrightarrow> (\<exists>k. m \<le> k \<and> k < n \<and> k < length xs \<and> xs ! k = x)"
proof
  assume "x \<in> set (drop m (take n xs))"
  then obtain j where j: "j < length (drop m (take n xs))" and x: "drop m (take n xs) ! j = x"
    by (auto simp: in_set_conv_nth)
  from j have lt: "m + j < n" "m + j < length xs" by simp_all
  then have "m \<le> length (take n xs)" by simp
  then have "drop m (take n xs) ! j = take n xs ! (m + j)" by simp
  with x lt have "xs ! (m + j) = x" by simp
  note lt
  moreover note \<open>xs ! (m + j) = x\<close>
  ultimately have "m \<le> m + j \<and> m + j < n \<and> m + j < length xs \<and> xs ! (m + j) = x" by simp
  then show "\<exists>k. m \<le> k \<and> k < n \<and> k < length xs \<and> xs ! k = x" ..
next
  assume "\<exists>k. m \<le> k \<and> k < n \<and> k < length xs \<and> xs ! k = x"
  then obtain k where k: "m \<le> k" "k < n" "k < length xs" "xs ! k = x" by blast
  then have "k - m < length (drop m (take n xs))" by simp
  moreover from k have "drop m (take n xs) ! (k - m) = x" by simp
  ultimately show "x \<in> set (drop m (take n xs))" by (auto simp: in_set_conv_nth)
qed

lemma slots_argv_at:
  "(\<exists>k. m \<le> k \<and> k < n \<and> argv_at argv k = Some x) \<longleftrightarrow> Some x \<in> set (drop m (take n argv))"
  unfolding in_set_slots argv_at_Some by blast

lemma scan_Returned:
  assumes "scan h argc argv = Returned (a, ex)"
  shows "\<exists>h1 argv0. calloc_sc_args h = (Some a, h1) \<and> objs h1 a = Some zeroed
           \<and> argv_at argv 0 = Some argv0
           \<and> parse_loop h1 a argc argv (called_as_launcher argv0) 1 = Returned ex"
  using assms
  by (auto simp: scan_def calloc_sc_args_def split: if_splits option.splits outcome.splits)

lemma scan_intro:
  assumes "calloc_sc_args h = (Some a, h1)" and "argv_at argv 0 = Some argv0"
    and "parse_loop h1 a argc argv (called_as_launcher argv0) 1 = Returned ex"
  shows "scan h argc argv = Returned (a, ex)"
  using assms by (simp add: scan_def)

lemma scan_live:
  assumes "scan h argc argv = Returned (a, Loop_end h2 ign optind)"
  shows "objs h2 a \<noteq> None"
proof -
  from scan_Returned[OF assms] obtain h1 argv0 where "objs h1 a = Some zeroed"
    and "parse_loop h1 a argc argv (called_as_launcher argv0) 1 = Returned (Loop_end h2 ign optind)"
    by blast
  then show ?thesis by (intro parse_loop_live[of h1 a argc argv _ 1 h2 ign optind]) simp_all
qed

lemma out_label_success:
  "out_label h args None argcp argvp =
     Returned \<lparr>ret = args, argc_cell = argcp, argv_cell = argvp, error_cell = None, heap_after = h\<rparr>"
  by (simp add: out_label_def sc_error_forward_def)

lemma out_label_failure:
  assumes "out_label h args (Some err) argcp argvp = Returned r"
  shows "ret r = None \<and> argc_cell r = argcp \<and> argv_cell r = argvp \<and> error_cell r = Some err"
  using assms
  by (auto simp: out_label_def sc_cleanup_args_def sc_error_forward_def split: outcome.splits)

lemma out_label_failure_live:
  assumes "objs h a \<noteq> None"
  shows "\<exists>h'. out_label h (Some a) (Some err) argcp argvp =
     Returned \<lparr>ret = None, argc_cell = argcp, argv_cell = argvp, error_cell = Some err, heap_after = h'\<rparr>"
  using assms
  by (auto simp: out_label_def sc_cleanup_args_def sc_args_free_def free_sc_args_def
      sc_error_forward_def)

lemma out_label_failure_NULL:
  "out_label h None (Some err) argcp argvp =
     Returned \<lparr>ret = None, argc_cell = argcp, argv_cell = argvp, error_cell = Some err, heap_after = h\<rparr>"
  by (simp add: out_label_def sc_cleanup_args_def sc_args_free_def sc_error_forward_def)

lemma parse_unfold:
  "sc_nonfatal_parse_args h (Some argc) (Some argv) =
     (if argc = 0 then
        out_label h None
          (Some (sc_error_init SC_ARGS_DOMAIN Code_0 ''cannot parse arguments, argc is zero''))
          (Some argc) (Some argv)
      else
        (case scan h argc argv of
           Fault \<Rightarrow> Fault
         | Died m \<Rightarrow> Died m
         | Returned (a, Jumped_out err h2) \<Rightarrow> out_label h2 (Some a) (Some err) (Some argc) (Some argv)
         | Returned (a, Loop_end h2 ign optind) \<Rightarrow>
             (case objs h2 a of
                None \<Rightarrow> Fault
              | Some s \<Rightarrow>
                  (case validate s of
                     Some err \<Rightarrow> out_label h2 (Some a) (Some err) (Some argc) (Some argv)
                   | None \<Rightarrow>
                       (case shift argc optind argv of
                          Fault \<Rightarrow> Fault
                        | Died m \<Rightarrow> Died m
                        | Returned (argv', argc') \<Rightarrow>
                            out_label h2 (Some a) None (Some argc') (Some argv'))))))"
  by (simp add: sc_nonfatal_parse_args_def)

lemma parse_NULL:
  assumes "argcp = None \<or> argvp = None"
  shows "sc_nonfatal_parse_args h argcp argvp =
           out_label h None
             (Some (sc_error_init SC_ARGS_DOMAIN Code_0
                      ''cannot parse arguments, argc or argv are NULL''))
             argcp argvp"
  using assms by (cases argcp; cases argvp) (simp_all add: sc_nonfatal_parse_args_def)

lemma parse_success:
  assumes "sc_nonfatal_parse_args h (Some argc) (Some argv) = Returned r"
    and "error_cell r = None"
  shows "\<exists>a h2 ign optind s argv' argc'.
           scan h argc argv = Returned (a, Loop_end h2 ign optind)
         \<and> objs h2 a = Some s \<and> validate s = None
         \<and> shift argc optind argv = Returned (argv', argc')
         \<and> r = \<lparr>ret = Some a, argc_cell = Some argc', argv_cell = Some argv',
                 error_cell = None, heap_after = h2\<rparr>"
proof (cases "argc = 0")
  case True
  with assms show ?thesis
    by (auto simp: parse_unfold dest: out_label_failure)
next
  case False
  show ?thesis
  proof (cases "scan h argc argv")
    case Fault
    with False assms show ?thesis by (simp add: parse_unfold)
  next
    case (Died m)
    with False assms show ?thesis by (simp add: parse_unfold)
  next
    case (Returned p)
    obtain a ex where p: "p = (a, ex)" by (cases p)
    show ?thesis
    proof (cases ex)
      case (Jumped_out err h2)
      with False assms Returned p show ?thesis
        by (auto simp: parse_unfold dest: out_label_failure)
    next
      case (Loop_end h2 ign optind)
      with False assms Returned p show ?thesis
        by (auto simp: parse_unfold out_label_success dest: out_label_failure
            split: option.splits outcome.splits)
    qed
  qed
qed

text \<open>
  A successful parse was left by \<^verbatim>\<open>break\<close>: the scan stopped at a position from 1 to
  \<^verbatim>\<open>argc - 1\<close>, and the structure passed the validation.
\<close>

lemma parse_success_scan:
  assumes "sc_nonfatal_parse_args h (Some argc) (Some argv) = Returned r"
    and "error_cell r = None"
  shows "\<exists>a h1 h2 argv0 ign optind s argv'.
           scan h argc argv = Returned (a, Loop_end h2 ign optind)
         \<and> objs h1 a = Some zeroed
         \<and> parse_loop h1 a argc argv (called_as_launcher argv0) 1 = Returned (Loop_end h2 ign optind)
         \<and> objs h2 a = Some s \<and> validate s = None
         \<and> 1 \<le> optind \<and> int optind < argc
         \<and> shift argc optind argv = Returned (argv', argc - int optind)
         \<and> r = \<lparr>ret = Some a, argc_cell = Some (argc - int optind), argv_cell = Some argv',
                 error_cell = None, heap_after = h2\<rparr>"
proof -
  from parse_success[OF assms] obtain a h2 ign optind s argv' argc'
    where sc: "scan h argc argv = Returned (a, Loop_end h2 ign optind)"
      and s: "objs h2 a = Some s" and v: "validate s = None"
      and sh: "shift argc optind argv = Returned (argv', argc')"
      and r: "r = \<lparr>ret = Some a, argc_cell = Some argc', argv_cell = Some argv',
                    error_cell = None, heap_after = h2\<rparr>"
    by blast
  from scan_Returned[OF sc] obtain h1 argv0 where live: "objs h1 a = Some zeroed"
    and loop: "parse_loop h1 a argc argv (called_as_launcher argv0) 1 = Returned (Loop_end h2 ign optind)"
    by blast
  have pos: "1 \<le> optind" using loop by (rule parse_loop_optind)
  from v have "is_version_query s \<or> executable s \<noteq> None"
    by (auto simp: validate_def split: if_splits)
  then have "is_version_query s \<noteq> is_version_query zeroed \<or> executable s \<noteq> executable zeroed"
    by (auto simp: zeroed_def)
  with loop live s have below: "int optind < argc" by (rule parse_loop_break_below)
  from shift_Returned(1)[OF sh pos below] have "argc' = argc - int optind" .
  with sc live loop s v pos below sh r show ?thesis by blast
qed

lemma parse_failure:
  assumes "sc_nonfatal_parse_args h argcp argvp = Returned r" and "error_cell r \<noteq> None"
  shows "ret r = None \<and> argc_cell r = argcp \<and> argv_cell r = argvp"
proof (cases "argcp = None \<or> argvp = None")
  case True
  from assms(1) show ?thesis
    unfolding parse_NULL[OF True] by (auto dest: out_label_failure)
next
  case False
  then obtain argc argv where cells: "argcp = Some argc" "argvp = Some argv" by auto
  show ?thesis
  proof (cases "argc = 0")
    case True
    with assms(1) cells show ?thesis
      by (auto simp: parse_unfold dest: out_label_failure)
  next
    case nonzero: False
    show ?thesis
    proof (cases "scan h argc argv")
      case Fault
      with nonzero assms(1) cells show ?thesis by (simp add: parse_unfold)
    next
      case (Died m)
      with nonzero assms(1) cells show ?thesis by (simp add: parse_unfold)
    next
      case (Returned p)
      obtain a ex where p: "p = (a, ex)" by (cases p)
      show ?thesis
      proof (cases ex)
        case (Jumped_out err h2)
        with nonzero assms(1) cells Returned p show ?thesis
          by (auto simp: parse_unfold dest: out_label_failure)
      next
        case (Loop_end h2 ign optind)
        with nonzero assms cells Returned p show ?thesis
          by (auto simp: parse_unfold out_label_success dest: out_label_failure
              split: option.splits outcome.splits)
      qed
    qed
  qed
qed

section \<open>The legacy name\<close>

lemma starts_with_minus_iff: "starts_with_minus s \<longleftrightarrow> (\<exists>cs. s = CHR ''-'' # cs)"
  by (cases s) (simp_all add: starts_with_minus_def)

lemma called_as_launcher_prog: "called_as_launcher ''prog'' = False"
  by (simp add: called_as_launcher_def)

lemma strrchr_None: "strrchr s c = None \<longleftrightarrow> c \<notin> set s"
  by (induction s) (auto split: option.splits)

lemma strrchr_last:
  assumes "c \<notin> set base"
  shows "strrchr (dir @ c # base) c = Some (c # base)"
proof (induction dir)
  case Nil
  from assms have "strrchr base c = None" by (simp add: strrchr_None)
  then show ?case by simp
next
  case (Cons x dir)
  then show ?case by simp
qed

text \<open>
With a directory in front, the legacy name is recognised.
\<close>

lemma called_as_launcher_with_directory:
  "called_as_launcher (dir @ ''/ubuntu-core-launcher'')"
proof -
  have "CHR ''/'' \<notin> set ''ubuntu-core-launcher''" by simp
  from strrchr_last[OF this, of dir] show ?thesis
    by (simp add: called_as_launcher_def)
qed

text \<open>
A name without a \<^verbatim>\<open>/\<close> is never taken for the legacy name.
\<close>

lemma called_as_launcher_no_slash:
  assumes "CHR ''/'' \<notin> set argv0"
  shows "\<not> called_as_launcher argv0"
  using assms by (simp add: called_as_launcher_def strrchr_None[THEN iffD2])

text \<open>
  Called under the legacy name with a directory in front, the parser drops the first
  positional argument: the second becomes the security tag and the third the executable.
\<close>

lemma legacy_with_directory:
  assumes "\<not> starts_with_minus legacy" and "\<not> starts_with_minus tag"
    and "\<not> starts_with_minus exe" and "3 \<le> budget h"
  shows "\<exists>r. sc_nonfatal_parse_args h (Some 4)
               (Some [Some (dir @ ''/ubuntu-core-launcher''), Some legacy, Some tag, Some exe, None])
               = Returned r
           \<and> error_cell r = None
           \<and> sc_args_security_tag (heap_after r) (ret r) = Returned (Some tag)
           \<and> sc_args_executable (heap_after r) (ret r) = Returned (Some exe)"
  using assms
  by (simp add: sc_nonfatal_parse_args_def scan_def calloc_sc_args_def zeroed_def argv_at_def
      called_as_launcher_with_directory parse_loop.simps loop_body_def strdup_def validate_def
      shift_def shift_loop.simps out_label_def sc_error_forward_def sc_args_security_tag_def
      sc_args_executable_def)

section \<open>Release\<close>

lemma sc_args_free_live:
  assumes "objs h a \<noteq> None"
  shows "sc_args_free h (Some a) = Returned (h\<lparr>objs := (objs h)(a := None)\<rparr>)"
  using assms by (auto simp: sc_args_free_def free_sc_args_def)

text \<open>
Releasing through a handle that was already released is an invalid \<^verbatim>\<open>free\<close>.
\<close>

lemma sc_args_free_twice:
  assumes "sc_args_free h (Some a) = Returned h'"
  shows "sc_args_free h' (Some a) = Fault"
  using assms by (auto simp: sc_args_free_def free_sc_args_def split: option.splits)

section \<open>The claims\<close>

text \<open>
  Claim C1. For every pair of tokens \<open>tag\<close> and \<open>exe\<close> that do not begin with \<^verbatim>\<open>-\<close>,
  parsing the vector \<^verbatim>\<open>["prog", tag, exe]\<close> succeeds, the security tag of the result is
  \<open>tag\<close>, its executable is \<open>exe\<close>, and both flags are false. The parser allocates three
  times on this input (the structure and the two strings); the heap is one that grants
  them, since a refused allocation ends the process.
\<close>

theorem parse_tag_exe:
  assumes "\<not> starts_with_minus tag" and "\<not> starts_with_minus exe" and "3 \<le> budget h"
  shows "\<exists>r. sc_nonfatal_parse_args h (Some 3) (Some [Some ''prog'', Some tag, Some exe, None]) = Returned r
           \<and> error_cell r = None
           \<and> sc_args_security_tag (heap_after r) (ret r) = Returned (Some tag)
           \<and> sc_args_executable (heap_after r) (ret r) = Returned (Some exe)
           \<and> sc_args_is_version_query (heap_after r) (ret r) = Returned False
           \<and> sc_args_is_classic_confinement (heap_after r) (ret r) = Returned False"
  using assms
  by (simp add: sc_nonfatal_parse_args_def scan_def calloc_sc_args_def zeroed_def argv_at_def
      called_as_launcher_prog parse_loop.simps loop_body_def strdup_def validate_def shift_def
      shift_loop.simps out_label_def sc_error_forward_def sc_args_security_tag_def
      sc_args_executable_def sc_args_is_version_query_def sc_args_is_classic_confinement_def)

theorem parse_tag_exe_witness:
  "\<exists>r. sc_nonfatal_parse_args \<lparr>objs = Map.empty, brk = 0, budget = 3\<rparr> (Some 3)
          (Some [Some ''prog'', Some ''tag'', Some ''exe'', None]) = Returned r
       \<and> error_cell r = None
       \<and> sc_args_security_tag (heap_after r) (ret r) = Returned (Some ''tag'')
       \<and> sc_args_executable (heap_after r) (ret r) = Returned (Some ''exe'')
       \<and> sc_args_is_version_query (heap_after r) (ret r) = Returned False
       \<and> sc_args_is_classic_confinement (heap_after r) (ret r) = Returned False"
  using parse_tag_exe[of "''tag''" "''exe''" "\<lparr>objs = Map.empty, brk = 0, budget = 3\<rparr>"]
  by (simp add: starts_with_minus_def)

text \<open>
  Claim C2. The claim is that the first positional argument is dropped whenever the last
  path component of \<^verbatim>\<open>argv[0]\<close> is \<^verbatim>\<open>ubuntu-core-launcher\<close>, with or without a
  directory in front. The source looks for the last \<^verbatim>\<open>/\<close> with \<^verbatim>\<open>strrchr\<close> and compares
  only when there is one, although its comment announces the check for ``being called
  through the ubuntu-core-launcher symlink''. Called as plain \<^verbatim>\<open>ubuntu-core-launcher\<close>
  (the name a shell passes after a search of \<^verbatim>\<open>PATH\<close>), the parser keeps the repeated
  legacy tag as the security tag and takes the real tag for the executable.
\<close>

theorem launcher_without_directory:
  "sc_nonfatal_parse_args \<lparr>objs = Map.empty, brk = 0, budget = 3\<rparr> (Some 4)
     (Some [Some ''ubuntu-core-launcher'', Some ''legacy-tag'', Some ''tag'', Some ''exe'', None])
   = Returned \<lparr>ret = Some 0, argc_cell = Some 2,
               argv_cell = Some [Some ''ubuntu-core-launcher'', Some ''exe'', None, Some ''exe'', None],
               error_cell = None,
               heap_after = \<lparr>objs = [0 \<mapsto> \<lparr>security_tag = Some ''legacy-tag'',
                                              executable = Some ''tag'',
                                              is_version_query = False,
                                              is_classic_confinement = False\<rparr>],
                              brk = 1, budget = 0\<rparr>\<rparr>
   \<and> sc_args_security_tag
         \<lparr>objs = [0 \<mapsto> \<lparr>security_tag = Some ''legacy-tag'', executable = Some ''tag'',
                           is_version_query = False, is_classic_confinement = False\<rparr>],
           brk = 1, budget = 0\<rparr> (Some 0) = Returned (Some ''legacy-tag'')
   \<and> sc_args_executable
         \<lparr>objs = [0 \<mapsto> \<lparr>security_tag = Some ''legacy-tag'', executable = Some ''tag'',
                           is_version_query = False, is_classic_confinement = False\<rparr>],
           brk = 1, budget = 0\<rparr> (Some 0) = Returned (Some ''tag'')"
  by (simp add: sc_nonfatal_parse_args_def scan_def calloc_sc_args_def zeroed_def argv_at_def
      called_as_launcher_def parse_loop.simps loop_body_def starts_with_minus_def strdup_def
      validate_def shift_def shift_loop.simps out_label_def sc_error_forward_def
      sc_args_security_tag_def sc_args_executable_def)

text \<open>
  Claim C3. For every list \<open>rest\<close> of trailing tokens, parsing
  \<^verbatim>\<open>["prog", "--version"] ++ rest\<close> succeeds with the version-query flag set (the heap
  grants the one allocation, that of the structure). Whatever \<open>rest\<close> holds, the stored
  security tag and executable stay \<^verbatim>\<open>NULL\<close> and the classic-confinement flag stays
  false; that the call succeeds although both strings are missing shows that the
  validation is skipped.
\<close>

theorem version_query_short_circuits:
  assumes "1 \<le> budget h"
  shows "\<exists>r. sc_nonfatal_parse_args h (Some (2 + int (length rest)))
               (Some (Some ''prog'' # Some ''--version'' # map Some rest @ [None])) = Returned r
           \<and> error_cell r = None
           \<and> sc_args_is_version_query (heap_after r) (ret r) = Returned True
           \<and> sc_args_security_tag (heap_after r) (ret r) = Returned None
           \<and> sc_args_executable (heap_after r) (ret r) = Returned None
           \<and> sc_args_is_classic_confinement (heap_after r) (ret r) = Returned False"
proof -
  define argc where "argc = 2 + int (length rest)"
  define argv where "argv = Some ''prog'' # Some ''--version'' # map Some rest @ [None]"
  define h1 where "h1 = snd (calloc_sc_args h)"
  define h2 where "h2 = h1\<lparr>objs := (objs h1)(brk h \<mapsto> zeroed\<lparr>is_version_query := True\<rparr>)\<rparr>"
  have calloc: "calloc_sc_args h = (Some (brk h), h1)" and live: "objs h1 (brk h) = Some zeroed"
    using assms by (simp_all add: h1_def calloc_sc_args_def)
  have a0: "argv_at argv 0 = Some ''prog''" and a1: "argv_at argv 1 = Some ''--version''"
    by (simp_all add: argv_def argv_at_def)
  have body: "loop_body h1 (brk h) argv False 1 = Returned (Break h2 False)"
    using a1 live by (simp add: loop_body_def starts_with_minus_def h2_def)
  have "int 1 < argc" by (simp add: argc_def)
  then have loop: "parse_loop h1 (brk h) argc argv False 1 = Returned (Loop_end h2 False 1)"
    using body by (rule parse_loop_Break)
  have sc: "scan h argc argv = Returned (brk h, Loop_end h2 False 1)"
    using calloc a0 loop by (simp add: scan_def called_as_launcher_prog)
  have obj: "objs h2 (brk h) = Some (zeroed\<lparr>is_version_query := True\<rparr>)"
    by (simp add: h2_def)
  have v: "validate (zeroed\<lparr>is_version_query := True\<rparr>) = None"
    by (simp add: validate_def)
  have "argc \<le> int (length argv)" "1 \<le> (1::nat)" "2 \<le> length argv"
    by (simp_all add: argc_def argv_def)
  from shift_total[OF this] obtain argv' where sh: "shift argc 1 argv = Returned (argv', argc - int 1)"
    by blast
  have "argc \<noteq> 0" by (simp add: argc_def)
  then have "sc_nonfatal_parse_args h (Some argc) (Some argv) =
          Returned \<lparr>ret = Some (brk h), argc_cell = Some (argc - int 1), argv_cell = Some argv',
                    error_cell = None, heap_after = h2\<rparr>"
    using sc obj v sh by (simp add: parse_unfold out_label_success)
  then show ?thesis
    using obj
    by (simp add: argc_def argv_def sc_args_is_version_query_def sc_args_security_tag_def
        sc_args_executable_def sc_args_is_classic_confinement_def zeroed_def)
qed

theorem version_query_short_circuits_witness:
  "\<exists>r. sc_nonfatal_parse_args \<lparr>objs = Map.empty, brk = 0, budget = 1\<rparr> (Some 4)
          (Some [Some ''prog'', Some ''--version'', Some ''--bogus'', Some ''--classic'', None]) = Returned r
       \<and> error_cell r = None
       \<and> sc_args_is_version_query (heap_after r) (ret r) = Returned True
       \<and> sc_args_security_tag (heap_after r) (ret r) = Returned None
       \<and> sc_args_executable (heap_after r) (ret r) = Returned None
       \<and> sc_args_is_classic_confinement (heap_after r) (ret r) = Returned False"
  using version_query_short_circuits[of "\<lparr>objs = Map.empty, brk = 0, budget = 1\<rparr>"
      "[''--bogus'', ''--classic'']"]
  by simp

text \<open>
  Claim C4. Let the token in slot \<open>k\<close> begin with \<^verbatim>\<open>-\<close> and be neither \<^verbatim>\<open>--version\<close>
  nor \<^verbatim>\<open>--classic\<close> (the lone \<^verbatim>\<open>-\<close> is such a token), and let the scan reach it: the
  scan of the slots before \<open>k\<close> alone runs to its end without leaving the loop. Then
  parsing fails with the usage error whose message is
  \<^verbatim>\<open>unrecognized command line option: \<close> followed by that token, the handle returned is
  \<^verbatim>\<open>NULL\<close>, and the two cells keep their contents. Nothing is assumed of the slots after
  \<open>k\<close>, not even that they exist, and \<^verbatim>\<open>argc\<close> is any count above \<open>k\<close>: the parser
  does not inspect a later token.
\<close>

theorem unrecognized_option:
  assumes reach: "scan h (int k) argv = Returned (a, Loop_end h2 ign k)"
    and slot: "int k < argc" "argv_at argv k = Some tok"
    and switch: "starts_with_minus tok" "tok \<noteq> ''--version''" "tok \<noteq> ''--classic''"
  shows "\<exists>h'. sc_nonfatal_parse_args h (Some argc) (Some argv) =
           Returned \<lparr>ret = None, argc_cell = Some argc, argv_cell = Some argv,
                     error_cell = Some (sc_error_init SC_ARGS_DOMAIN SC_ARGS_ERR_USAGE
                                          (''unrecognized command line option: '' @ tok)),
                     heap_after = h'\<rparr>"
proof -
  let ?err = "sc_error_init SC_ARGS_DOMAIN SC_ARGS_ERR_USAGE
                (''unrecognized command line option: '' @ tok)"
  from scan_Returned[OF reach] obtain h1 argv0 where calloc: "calloc_sc_args h = (Some a, h1)"
    and live1: "objs h1 a = Some zeroed" and a0: "argv_at argv 0 = Some argv0"
    and pre: "parse_loop h1 a (int k) argv (called_as_launcher argv0) 1 = Returned (Loop_end h2 ign k)"
    by blast
  from pre live1 have live2: "objs h2 a \<noteq> None" by (intro parse_loop_live[OF pre]) simp
  have body: "loop_body h2 a argv ign k = Returned (Goto_out ?err h2)"
    using slot(2) switch by (simp add: loop_body_def)
  from pre slot(1)
  have "parse_loop h1 a argc argv (called_as_launcher argv0) 1 = parse_loop h2 a argc argv ign k"
    by (intro parse_loop_prefix[OF pre]) simp_all
  also have "\<dots> = Returned (Jumped_out ?err h2)"
    using slot(1) body by (rule parse_loop_Goto_out)
  finally have "scan h argc argv = Returned (a, Jumped_out ?err h2)"
    using calloc a0 by (intro scan_intro)
  moreover from slot(1) have "argc \<noteq> 0" by auto
  ultimately have "sc_nonfatal_parse_args h (Some argc) (Some argv) =
      out_label h2 (Some a) (Some ?err) (Some argc) (Some argv)"
    by (simp add: parse_unfold)
  with out_label_failure_live[OF live2, of ?err "Some argc" "Some argv"] show ?thesis by simp
qed

theorem unrecognized_option_witness:
  "\<exists>h'. sc_nonfatal_parse_args \<lparr>objs = Map.empty, brk = 0, budget = 2\<rparr> (Some 5)
           (Some [Some ''prog'', Some ''--classic'', Some ''tag'', Some ''-'', Some ''exe'', None]) =
         Returned \<lparr>ret = None, argc_cell = Some 5,
                   argv_cell = Some [Some ''prog'', Some ''--classic'', Some ''tag'', Some ''-'',
                                     Some ''exe'', None],
                   error_cell = Some (sc_error_init SC_ARGS_DOMAIN SC_ARGS_ERR_USAGE
                                        ''unrecognized command line option: -''),
                   heap_after = h'\<rparr>"
proof -
  let ?h = "\<lparr>objs = Map.empty, brk = 0, budget = 2\<rparr>"
  let ?argv = "[Some ''prog'', Some ''--classic'', Some ''tag'', Some ''-'', Some ''exe'', None]"
  let ?h2 = "\<lparr>objs = [0 \<mapsto> \<lparr>security_tag = Some ''tag'', executable = None,
                             is_version_query = False, is_classic_confinement = True\<rparr>],
              brk = Suc 0, budget = 0\<rparr>"
  have reach: "scan ?h (int 3) ?argv = Returned (0, Loop_end ?h2 False 3)"
    by (simp add: scan_def calloc_sc_args_def zeroed_def argv_at_def called_as_launcher_def
        parse_loop.simps loop_body_def starts_with_minus_def strdup_def)
  have "int 3 < 5" "argv_at ?argv 3 = Some ''-''" "starts_with_minus ''-''"
    "''-'' \<noteq> ''--version''" "''-'' \<noteq> ''--classic''"
    by (simp_all add: argv_at_def starts_with_minus_def)
  from unrecognized_option[OF reach this] show ?thesis by simp
qed

text \<open>
  Claim C5. If the scan runs to its end with the version-query flag false, the parse fails
  with the usage error about the missing security tag whenever the security tag was not
  set (whether or not the executable was), and with the usage error about the missing
  executable when the security tag was set and the executable was not.
\<close>

theorem missing_tag_or_executable:
  assumes nonzero: "argc \<noteq> 0"
    and scanned: "scan h argc argv = Returned (a, Loop_end h2 ign optind)"
    and query: "sc_args_is_version_query h2 (Some a) = Returned False"
    and missing: "sc_args_security_tag h2 (Some a) = Returned None
                    \<or> sc_args_executable h2 (Some a) = Returned None"
  shows "\<exists>h'. sc_nonfatal_parse_args h (Some argc) (Some argv) =
           Returned \<lparr>ret = None, argc_cell = Some argc, argv_cell = Some argv,
                     error_cell = Some (sc_error_init SC_ARGS_DOMAIN SC_ARGS_ERR_USAGE
                        (if sc_args_security_tag h2 (Some a) = Returned None
                         then ''application or hook security tag was not provided''
                         else ''executable name was not provided'')),
                     heap_after = h'\<rparr>"
proof -
  from query obtain s where s: "objs h2 a = Some s" and q: "is_version_query s = False"
    by (auto simp: accessor_Returned)
  let ?msg = "if security_tag s = None then ''application or hook security tag was not provided''
              else ''executable name was not provided''"
  have tag: "sc_args_security_tag h2 (Some a) = Returned None \<longleftrightarrow> security_tag s = None"
    and exe: "sc_args_executable h2 (Some a) = Returned None \<longleftrightarrow> executable s = None"
    using s by (simp_all add: accessor_Returned)
  from missing have "security_tag s = None \<or> executable s = None"
    by (simp only: tag exe)
  with q have v: "validate s = Some (sc_error_init SC_ARGS_DOMAIN SC_ARGS_ERR_USAGE ?msg)"
    by (cases "security_tag s"; cases "executable s") (simp_all add: validate_def)
  let ?err = "sc_error_init SC_ARGS_DOMAIN SC_ARGS_ERR_USAGE ?msg"
  from nonzero scanned s v
  have call: "sc_nonfatal_parse_args h (Some argc) (Some argv) =
      out_label h2 (Some a) (Some ?err) (Some argc) (Some argv)"
    by (simp only: parse_unfold if_False outcome.case prod.case loop_exit.case option.case)
  have "objs h2 a \<noteq> None" using s by simp
  from out_label_failure_live[OF this] obtain h' where
    "out_label h2 (Some a) (Some ?err) (Some argc) (Some argv) =
       Returned \<lparr>ret = None, argc_cell = Some argc, argv_cell = Some argv,
                 error_cell = Some ?err, heap_after = h'\<rparr>"
    by blast
  with call have "sc_nonfatal_parse_args h (Some argc) (Some argv) =
       Returned \<lparr>ret = None, argc_cell = Some argc, argv_cell = Some argv,
                 error_cell = Some ?err, heap_after = h'\<rparr>"
    by simp
  then show ?thesis unfolding tag by (rule exI)
qed

theorem missing_tag_or_executable_witness:
  "(\<exists>h'. sc_nonfatal_parse_args \<lparr>objs = Map.empty, brk = 0, budget = 2\<rparr> (Some 1)
            (Some [Some ''prog'', None]) =
          Returned \<lparr>ret = None, argc_cell = Some 1, argv_cell = Some [Some ''prog'', None],
                    error_cell = Some (sc_error_init SC_ARGS_DOMAIN SC_ARGS_ERR_USAGE
                                         ''application or hook security tag was not provided''),
                    heap_after = h'\<rparr>)
   \<and> (\<exists>h'. sc_nonfatal_parse_args \<lparr>objs = Map.empty, brk = 0, budget = 2\<rparr> (Some 2)
            (Some [Some ''prog'', Some ''tag'', None]) =
          Returned \<lparr>ret = None, argc_cell = Some 2, argv_cell = Some [Some ''prog'', Some ''tag'', None],
                    error_cell = Some (sc_error_init SC_ARGS_DOMAIN SC_ARGS_ERR_USAGE
                                         ''executable name was not provided''),
                    heap_after = h'\<rparr>)"
proof
  let ?h = "\<lparr>objs = Map.empty, brk = 0, budget = 2\<rparr>"
  let ?h1 = "\<lparr>objs = [0 \<mapsto> zeroed], brk = Suc 0, budget = Suc 0\<rparr>"
  let ?h2 = "\<lparr>objs = [0 \<mapsto> zeroed\<lparr>security_tag := Some ''tag''\<rparr>], brk = Suc 0, budget = 0\<rparr>"
  have s1: "scan ?h 1 [Some ''prog'', None] = Returned (0, Loop_end ?h1 False 1)"
    by (simp add: scan_def calloc_sc_args_def argv_at_def called_as_launcher_def
        parse_loop.simps)
  have "(1::int) \<noteq> 0" "sc_args_is_version_query ?h1 (Some 0) = Returned False"
    "sc_args_security_tag ?h1 (Some 0) = Returned None
       \<or> sc_args_executable ?h1 (Some 0) = Returned None"
    by (simp_all add: sc_args_is_version_query_def sc_args_security_tag_def zeroed_def)
  from missing_tag_or_executable[OF this(1) s1 this(2,3)]
  show "\<exists>h'. sc_nonfatal_parse_args ?h (Some 1) (Some [Some ''prog'', None]) =
          Returned \<lparr>ret = None, argc_cell = Some 1, argv_cell = Some [Some ''prog'', None],
                    error_cell = Some (sc_error_init SC_ARGS_DOMAIN SC_ARGS_ERR_USAGE
                                         ''application or hook security tag was not provided''),
                    heap_after = h'\<rparr>"
    by (simp add: sc_args_security_tag_def zeroed_def)
  have s2: "scan ?h 2 [Some ''prog'', Some ''tag'', None] = Returned (0, Loop_end ?h2 False 2)"
    by (simp add: scan_def calloc_sc_args_def argv_at_def called_as_launcher_def
        parse_loop.simps loop_body_def starts_with_minus_def strdup_def zeroed_def)
  have "(2::int) \<noteq> 0" "sc_args_is_version_query ?h2 (Some 0) = Returned False"
    "sc_args_security_tag ?h2 (Some 0) = Returned None
       \<or> sc_args_executable ?h2 (Some 0) = Returned None"
    by (simp_all add: sc_args_is_version_query_def sc_args_executable_def zeroed_def)
  from missing_tag_or_executable[OF this(1) s2 this(2,3)]
  show "\<exists>h'. sc_nonfatal_parse_args ?h (Some 2) (Some [Some ''prog'', Some ''tag'', None]) =
          Returned \<lparr>ret = None, argc_cell = Some 2, argv_cell = Some [Some ''prog'', Some ''tag'', None],
                    error_cell = Some (sc_error_init SC_ARGS_DOMAIN SC_ARGS_ERR_USAGE
                                         ''executable name was not provided''),
                    heap_after = h'\<rparr>"
    by (simp add: sc_args_security_tag_def zeroed_def)
qed

text \<open>
  Claim C6, as stated, fails: the flag would be true if and only if \<^verbatim>\<open>--classic\<close> stands
  anywhere in \<^verbatim>\<open>argv[1..]\<close>. On \<^verbatim>\<open>["prog", "tag", "exe", "--classic"]\<close> the scan stops at
  the executable, the trailing \<^verbatim>\<open>--classic\<close> is left to the launched program, and the
  flag is false.
\<close>

theorem classic_after_stop_counterexample:
  "sc_nonfatal_parse_args \<lparr>objs = Map.empty, brk = 0, budget = 3\<rparr> (Some 4)
     (Some [Some ''prog'', Some ''tag'', Some ''exe'', Some ''--classic'', None])
   = Returned \<lparr>ret = Some 0, argc_cell = Some 2,
               argv_cell = Some [Some ''prog'', Some ''--classic'', None, Some ''--classic'', None],
               error_cell = None,
               heap_after = \<lparr>objs = [0 \<mapsto> \<lparr>security_tag = Some ''tag'', executable = Some ''exe'',
                                              is_version_query = False,
                                              is_classic_confinement = False\<rparr>],
                              brk = 1, budget = 0\<rparr>\<rparr>
   \<and> sc_args_is_classic_confinement
         \<lparr>objs = [0 \<mapsto> \<lparr>security_tag = Some ''tag'', executable = Some ''exe'',
                           is_version_query = False, is_classic_confinement = False\<rparr>],
           brk = 1, budget = 0\<rparr> (Some 0) = Returned False
   \<and> Some ''--classic'' \<in> set (drop 1 [Some ''prog'', Some ''tag'', Some ''exe'', Some ''--classic'', None])"
  by (simp add: sc_nonfatal_parse_args_def scan_def calloc_sc_args_def zeroed_def argv_at_def
      called_as_launcher_def parse_loop.simps loop_body_def starts_with_minus_def strdup_def
      validate_def shift_def shift_loop.simps out_label_def sc_error_forward_def
      sc_args_is_classic_confinement_def)

text \<open>
  Claim C6, amended. For every input on which parsing succeeds, the classic-confinement
  flag of the result is true if and only if some token equal to \<^verbatim>\<open>--classic\<close> stands in
  \<^verbatim>\<open>argv[1..optind-1]\<close>, before the position \<open>optind\<close> where the scan stopped.
\<close>

theorem classic_iff_scanned:
  assumes "sc_nonfatal_parse_args h (Some argc) (Some argv) = Returned r"
    and "error_cell r = None"
  shows "\<exists>a h2 ign optind.
           scan h argc argv = Returned (a, Loop_end h2 ign optind)
         \<and> sc_args_is_classic_confinement (heap_after r) (ret r)
             = Returned (Some ''--classic'' \<in> set (drop 1 (take optind argv)))"
proof -
  from parse_success_scan[OF assms] obtain a h1 h2 argv0 ign optind s argv'
    where sc: "scan h argc argv = Returned (a, Loop_end h2 ign optind)"
      and live: "objs h1 a = Some zeroed"
      and loop: "parse_loop h1 a argc argv (called_as_launcher argv0) 1
                   = Returned (Loop_end h2 ign optind)"
      and s: "objs h2 a = Some s"
      and r: "r = \<lparr>ret = Some a, argc_cell = Some (argc - int optind), argv_cell = Some argv',
                    error_cell = None, heap_after = h2\<rparr>"
    by blast
  from parse_loop_classic[OF loop live s]
  have "is_classic_confinement s \<longleftrightarrow>
          (\<exists>k. 1 \<le> k \<and> k < optind \<and> argv_at argv k = Some ''--classic'')"
    by (simp add: zeroed_def)
  also have "\<dots> \<longleftrightarrow> Some ''--classic'' \<in> set (drop 1 (take optind argv))"
    by (rule slots_argv_at)
  finally have "sc_args_is_classic_confinement h2 (Some a)
                  = Returned (Some ''--classic'' \<in> set (drop 1 (take optind argv)))"
    using s by (simp add: sc_args_is_classic_confinement_def)
  with sc r show ?thesis by auto
qed

theorem classic_iff_scanned_witness:
  "\<exists>r a h2 ign.
      sc_nonfatal_parse_args \<lparr>objs = Map.empty, brk = 0, budget = 3\<rparr> (Some 5)
        (Some [Some ''prog'', Some ''--classic'', Some ''tag'', Some ''exe'', Some ''--classic'', None])
        = Returned r
    \<and> scan \<lparr>objs = Map.empty, brk = 0, budget = 3\<rparr> 5
        [Some ''prog'', Some ''--classic'', Some ''tag'', Some ''exe'', Some ''--classic'', None]
        = Returned (a, Loop_end h2 ign 3)
    \<and> sc_args_is_classic_confinement (heap_after r) (ret r) = Returned True"
proof -
  let ?h = "\<lparr>objs = Map.empty, brk = 0, budget = 3\<rparr>"
  let ?argv = "[Some ''prog'', Some ''--classic'', Some ''tag'', Some ''exe'', Some ''--classic'', None]"
  let ?h2 = "\<lparr>objs = [0 \<mapsto> \<lparr>security_tag = Some ''tag'', executable = Some ''exe'',
                             is_version_query = False, is_classic_confinement = True\<rparr>],
              brk = Suc 0, budget = 0\<rparr>"
  have sc: "scan ?h 5 ?argv = Returned (0, Loop_end ?h2 False 3)"
    by (simp add: scan_def calloc_sc_args_def zeroed_def argv_at_def called_as_launcher_def
        parse_loop.simps loop_body_def starts_with_minus_def strdup_def)
  obtain r where run: "sc_nonfatal_parse_args ?h (Some 5) (Some ?argv) = Returned r"
    and ok: "error_cell r = None"
    by (simp add: parse_unfold sc validate_def shift_def shift_loop.simps out_label_success)
  from classic_iff_scanned[OF run ok] sc
  have "sc_args_is_classic_confinement (heap_after r) (ret r)
          = Returned (Some ''--classic'' \<in> set (drop 1 (take 3 ?argv)))"
    by auto
  then have "sc_args_is_classic_confinement (heap_after r) (ret r) = Returned True"
    by simp
  with run sc show ?thesis by blast
qed

text \<open>
  Claim C7, as stated, fails: after a successful parse that is no version query the two
  strings would be non-empty. The parser tests them against \<^verbatim>\<open>NULL\<close> only, and the empty
  token does not begin with \<^verbatim>\<open>-\<close>: \<^verbatim>\<open>["prog", "", ""]\<close> parses, with the empty string
  for the security tag and for the executable.
\<close>

theorem empty_tag_counterexample:
  "sc_nonfatal_parse_args \<lparr>objs = Map.empty, brk = 0, budget = 3\<rparr> (Some 3)
     (Some [Some ''prog'', Some [], Some [], None])
   = Returned \<lparr>ret = Some 0, argc_cell = Some 1,
               argv_cell = Some [Some ''prog'', None, Some [], None],
               error_cell = None,
               heap_after = \<lparr>objs = [0 \<mapsto> \<lparr>security_tag = Some [], executable = Some [],
                                              is_version_query = False,
                                              is_classic_confinement = False\<rparr>],
                              brk = 1, budget = 0\<rparr>\<rparr>
   \<and> sc_args_is_version_query
         \<lparr>objs = [0 \<mapsto> \<lparr>security_tag = Some [], executable = Some [],
                           is_version_query = False, is_classic_confinement = False\<rparr>],
           brk = 1, budget = 0\<rparr> (Some 0) = Returned False
   \<and> sc_args_security_tag
         \<lparr>objs = [0 \<mapsto> \<lparr>security_tag = Some [], executable = Some [],
                           is_version_query = False, is_classic_confinement = False\<rparr>],
           brk = 1, budget = 0\<rparr> (Some 0) = Returned (Some [])
   \<and> sc_args_executable
         \<lparr>objs = [0 \<mapsto> \<lparr>security_tag = Some [], executable = Some [],
                           is_version_query = False, is_classic_confinement = False\<rparr>],
           brk = 1, budget = 0\<rparr> (Some 0) = Returned (Some [])"
  by (simp add: sc_nonfatal_parse_args_def scan_def calloc_sc_args_def zeroed_def argv_at_def
      called_as_launcher_def parse_loop.simps loop_body_def starts_with_minus_def strdup_def
      validate_def shift_def shift_loop.simps out_label_def sc_error_forward_def
      sc_args_is_version_query_def sc_args_security_tag_def sc_args_executable_def)

text \<open>
  Claim C7, amended. For every input on which parsing succeeds with the version-query
  flag false, the security tag and the executable are both set (not \<^verbatim>\<open>NULL\<close>), and each
  is a copy of one of the tokens \<^verbatim>\<open>argv[1..argc-1]\<close>; so they are non-empty whenever
  these tokens are.
\<close>

theorem tag_and_executable_set:
  assumes "sc_nonfatal_parse_args h (Some argc) (Some argv) = Returned r"
    and "error_cell r = None"
    and "sc_args_is_version_query (heap_after r) (ret r) = Returned False"
  shows "\<exists>t e. sc_args_security_tag (heap_after r) (ret r) = Returned (Some t)
             \<and> sc_args_executable (heap_after r) (ret r) = Returned (Some e)
             \<and> Some t \<in> set (drop 1 (take (nat argc) argv))
             \<and> Some e \<in> set (drop 1 (take (nat argc) argv))"
proof -
  from parse_success_scan[OF assms(1,2)] obtain a h1 h2 argv0 ign optind s argv'
    where live: "objs h1 a = Some zeroed"
      and loop: "parse_loop h1 a argc argv (called_as_launcher argv0) 1
                   = Returned (Loop_end h2 ign optind)"
      and s: "objs h2 a = Some s" and v: "validate s = None"
      and pos: "1 \<le> optind" and below: "int optind < argc"
      and r: "r = \<lparr>ret = Some a, argc_cell = Some (argc - int optind), argv_cell = Some argv',
                    error_cell = None, heap_after = h2\<rparr>"
    by blast
  from assms(3) r s have "is_version_query s = False"
    by (simp add: sc_args_is_version_query_def)
  with v obtain t e where t: "security_tag s = Some t" and e: "executable s = Some e"
    by (auto simp: validate_def split: if_splits)
  from parse_loop_security_tag[OF loop live s t]
  obtain k where "1 \<le> k" "int k < argc" "argv_at argv k = Some t"
    by (auto simp: zeroed_def)
  then have "1 \<le> k \<and> k < nat argc \<and> argv_at argv k = Some t" by simp
  then have "\<exists>k. 1 \<le> k \<and> k < nat argc \<and> argv_at argv k = Some t" ..
  then have tin: "Some t \<in> set (drop 1 (take (nat argc) argv))" by (simp only: slots_argv_at)
  from parse_loop_executable[OF loop live s e]
  have "argv_at argv optind = Some e" by (simp add: zeroed_def)
  with pos below have "1 \<le> optind \<and> optind < nat argc \<and> argv_at argv optind = Some e" by simp
  then have "\<exists>k. 1 \<le> k \<and> k < nat argc \<and> argv_at argv k = Some e" ..
  then have ein: "Some e \<in> set (drop 1 (take (nat argc) argv))" by (simp only: slots_argv_at)
  from r s t e have "sc_args_security_tag (heap_after r) (ret r) = Returned (Some t)"
    "sc_args_executable (heap_after r) (ret r) = Returned (Some e)"
    by (simp_all add: sc_args_security_tag_def sc_args_executable_def)
  with tin ein show ?thesis by blast
qed

theorem tag_and_executable_set_witness:
  "\<exists>r t e.
      sc_nonfatal_parse_args \<lparr>objs = Map.empty, brk = 0, budget = 3\<rparr> (Some 3)
        (Some [Some ''prog'', Some ''tag'', Some ''exe'', None]) = Returned r
    \<and> error_cell r = None
    \<and> sc_args_is_version_query (heap_after r) (ret r) = Returned False
    \<and> sc_args_security_tag (heap_after r) (ret r) = Returned (Some t)
    \<and> sc_args_executable (heap_after r) (ret r) = Returned (Some e)
    \<and> Some t \<in> set [Some ''tag'', Some ''exe'']
    \<and> Some e \<in> set [Some ''tag'', Some ''exe'']"
proof -
  let ?h = "\<lparr>objs = Map.empty, brk = 0, budget = 3\<rparr>"
  let ?argv = "[Some ''prog'', Some ''tag'', Some ''exe'', None]"
  have sc: "scan ?h 3 ?argv = Returned (0, Loop_end
      \<lparr>objs = [0 \<mapsto> \<lparr>security_tag = Some ''tag'', executable = Some ''exe'',
                        is_version_query = False, is_classic_confinement = False\<rparr>],
        brk = Suc 0, budget = 0\<rparr> False 2)"
    by (simp add: scan_def calloc_sc_args_def zeroed_def argv_at_def called_as_launcher_def
        parse_loop.simps loop_body_def starts_with_minus_def strdup_def)
  obtain r where run: "sc_nonfatal_parse_args ?h (Some 3) (Some ?argv) = Returned r"
    and ok: "error_cell r = None"
    and q: "sc_args_is_version_query (heap_after r) (ret r) = Returned False"
    by (simp add: parse_unfold sc validate_def shift_def shift_loop.simps out_label_success
        sc_args_is_version_query_def)
  from tag_and_executable_set[OF run ok q] obtain t e where
    "sc_args_security_tag (heap_after r) (ret r) = Returned (Some t)"
    "sc_args_executable (heap_after r) (ret r) = Returned (Some e)"
    "Some t \<in> set (drop 1 (take (nat 3) ?argv))" "Some e \<in> set (drop 1 (take (nat 3) ?argv))"
    by blast
  with run ok q show ?thesis
    by (intro exI[of _ r] exI[of _ t] exI[of _ e]) simp
qed

text \<open>
  Claim C8. For every input on which parsing succeeds, with \<open>optind\<close> the position where
  the scan stopped: the count written back is \<^verbatim>\<open>argc - optind\<close>, and the first
  \<^verbatim>\<open>argc - optind + 1\<close> slots of the rewritten vector are the original \<^verbatim>\<open>argv[0]\<close>, then
  the tokens \<^verbatim>\<open>argv[optind+1..argc-1]\<close> in their order, then \<^verbatim>\<open>NULL\<close>.
\<close>

theorem argv_compaction:
  assumes "sc_nonfatal_parse_args h (Some argc) (Some argv) = Returned r"
    and "error_cell r = None"
  shows "\<exists>a h2 ign optind argv'.
           scan h argc argv = Returned (a, Loop_end h2 ign optind)
         \<and> 1 \<le> optind \<and> int optind < argc
         \<and> argc_cell r = Some (argc - int optind)
         \<and> argv_cell r = Some argv'
         \<and> length argv' = length argv
         \<and> take (Suc (nat argc - optind)) argv'
              = argv ! 0 # drop (Suc optind) (take (nat argc) argv) @ [None]"
proof -
  from parse_success_scan[OF assms] obtain a h2 ign optind argv'
    where sc: "scan h argc argv = Returned (a, Loop_end h2 ign optind)"
      and pos: "1 \<le> optind" and below: "int optind < argc"
      and sh: "shift argc optind argv = Returned (argv', argc - int optind)"
      and r: "r = \<lparr>ret = Some a, argc_cell = Some (argc - int optind), argv_cell = Some argv',
                    error_cell = None, heap_after = h2\<rparr>"
    by blast
  from shift_Returned(2,4)[OF sh pos below] sc pos below r show ?thesis by simp
qed

theorem argv_compaction_witness:
  "\<exists>r a h2 ign argv'.
      sc_nonfatal_parse_args \<lparr>objs = Map.empty, brk = 0, budget = 3\<rparr> (Some 5)
        (Some [Some ''prog'', Some ''tag'', Some ''exe'', Some ''extra1'', Some ''extra2'', None])
        = Returned r
    \<and> scan \<lparr>objs = Map.empty, brk = 0, budget = 3\<rparr> 5
        [Some ''prog'', Some ''tag'', Some ''exe'', Some ''extra1'', Some ''extra2'', None]
        = Returned (a, Loop_end h2 ign 2)
    \<and> argc_cell r = Some 3
    \<and> argv_cell r = Some argv'
    \<and> take 4 argv' = [Some ''prog'', Some ''extra1'', Some ''extra2'', None]"
proof -
  let ?h = "\<lparr>objs = Map.empty, brk = 0, budget = 3\<rparr>"
  let ?argv = "[Some ''prog'', Some ''tag'', Some ''exe'', Some ''extra1'', Some ''extra2'', None]"
  let ?h2 = "\<lparr>objs = [0 \<mapsto> \<lparr>security_tag = Some ''tag'', executable = Some ''exe'',
                             is_version_query = False, is_classic_confinement = False\<rparr>],
              brk = Suc 0, budget = 0\<rparr>"
  have sc: "scan ?h 5 ?argv = Returned (0, Loop_end ?h2 False 2)"
    by (simp add: scan_def calloc_sc_args_def zeroed_def argv_at_def called_as_launcher_def
        parse_loop.simps loop_body_def starts_with_minus_def strdup_def)
  obtain r where run: "sc_nonfatal_parse_args ?h (Some 5) (Some ?argv) = Returned r"
    and ok: "error_cell r = None"
    by (simp add: parse_unfold sc validate_def shift_def shift_loop.simps out_label_success)
  from argv_compaction[OF run ok] sc obtain argv' where
    "argc_cell r = Some (5 - int 2)" "argv_cell r = Some argv'"
    "take (Suc (nat 5 - 2)) argv' = ?argv ! 0 # drop (Suc 2) (take (nat 5) ?argv) @ [None]"
    by auto
  with run sc show ?thesis by (intro exI[of _ r] exI[of _ 0] exI[of _ ?h2] exI[of _ False] exI[of _ argv']) simp
qed

text \<open>
  Claim C9. Whenever the parser returns with the error cell filled, the returned handle is
  \<^verbatim>\<open>NULL\<close> and the argument-count cell and the argument-vector cell (with the array
  it points to) hold what they held before the call. A \<^verbatim>\<open>NULL\<close> handle for either cell,
  and a zero argument count, are such failures; so are the unrecognized switch and the
  missing tag or executable of claims C4 and C5.
\<close>

theorem failure_leaves_cells:
  "(\<forall>r. sc_nonfatal_parse_args h argcp argvp = Returned r \<and> error_cell r \<noteq> None
        \<longrightarrow> ret r = None \<and> argc_cell r = argcp \<and> argv_cell r = argvp)
   \<and> (argcp = None \<or> argvp = None \<longrightarrow>
        sc_nonfatal_parse_args h argcp argvp =
          Returned \<lparr>ret = None, argc_cell = argcp, argv_cell = argvp,
                    error_cell = Some (sc_error_init SC_ARGS_DOMAIN Code_0
                                         ''cannot parse arguments, argc or argv are NULL''),
                    heap_after = h\<rparr>)
   \<and> (argcp = Some 0 \<and> argvp \<noteq> None \<longrightarrow>
        sc_nonfatal_parse_args h argcp argvp =
          Returned \<lparr>ret = None, argc_cell = argcp, argv_cell = argvp,
                    error_cell = Some (sc_error_init SC_ARGS_DOMAIN Code_0
                                         ''cannot parse arguments, argc is zero''),
                    heap_after = h\<rparr>)"
proof (intro conjI allI impI)
  fix r assume "sc_nonfatal_parse_args h argcp argvp = Returned r \<and> error_cell r \<noteq> None"
  then have "sc_nonfatal_parse_args h argcp argvp = Returned r" and "error_cell r \<noteq> None"
    by simp_all
  then have "ret r = None \<and> argc_cell r = argcp \<and> argv_cell r = argvp"
    by (rule parse_failure)
  then show "ret r = None" "argc_cell r = argcp" "argv_cell r = argvp" by simp_all
next
  assume "argcp = None \<or> argvp = None"
  then show "sc_nonfatal_parse_args h argcp argvp =
          Returned \<lparr>ret = None, argc_cell = argcp, argv_cell = argvp,
                    error_cell = Some (sc_error_init SC_ARGS_DOMAIN Code_0
                                         ''cannot parse arguments, argc or argv are NULL''),
                    heap_after = h\<rparr>"
    by (simp only: parse_NULL out_label_failure_NULL)
next
  assume "argcp = Some 0 \<and> argvp \<noteq> None"
  then obtain argv where "argcp = Some 0" "argvp = Some argv" by auto
  then show "sc_nonfatal_parse_args h argcp argvp =
          Returned \<lparr>ret = None, argc_cell = argcp, argv_cell = argvp,
                    error_cell = Some (sc_error_init SC_ARGS_DOMAIN Code_0
                                         ''cannot parse arguments, argc is zero''),
                    heap_after = h\<rparr>"
    by (simp add: parse_unfold out_label_failure_NULL)
qed

theorem failure_leaves_cells_witness:
  "sc_nonfatal_parse_args \<lparr>objs = Map.empty, brk = 0, budget = 2\<rparr> None
       (Some [Some ''prog'', None]) =
     Returned \<lparr>ret = None, argc_cell = None, argv_cell = Some [Some ''prog'', None],
               error_cell = Some (sc_error_init SC_ARGS_DOMAIN Code_0
                                    ''cannot parse arguments, argc or argv are NULL''),
               heap_after = \<lparr>objs = Map.empty, brk = 0, budget = 2\<rparr>\<rparr>
   \<and> sc_nonfatal_parse_args \<lparr>objs = Map.empty, brk = 0, budget = 2\<rparr> (Some 0) (Some [None]) =
     Returned \<lparr>ret = None, argc_cell = Some 0, argv_cell = Some [None],
               error_cell = Some (sc_error_init SC_ARGS_DOMAIN Code_0
                                    ''cannot parse arguments, argc is zero''),
               heap_after = \<lparr>objs = Map.empty, brk = 0, budget = 2\<rparr>\<rparr>"
  using failure_leaves_cells[of "\<lparr>objs = Map.empty, brk = 0, budget = 2\<rparr>" None
      "Some [Some ''prog'', None]"]
    failure_leaves_cells[of "\<lparr>objs = Map.empty, brk = 0, budget = 2\<rparr>" "Some 0" "Some [None]"]
  by simp

text \<open>
  Claim C10. For every reference to a result (a cell that holds \<^verbatim>\<open>NULL\<close> or the handle of
  a live structure), \<^verbatim>\<open>sc_cleanup_args\<close> returns, frees the structure and leaves
  \<^verbatim>\<open>NULL\<close> in the cell; a second call on the same cell returns as well, without a fault,
  and changes neither the heap nor the cell.
\<close>

theorem cleanup_twice:
  assumes "live_or_NULL h p"
  shows "\<exists>h'. sc_cleanup_args h (Some p) = Returned (h', Some None)
            \<and> h' = (case p of None \<Rightarrow> h | Some a \<Rightarrow> h\<lparr>objs := (objs h)(a := None)\<rparr>)
            \<and> sc_cleanup_args h' (Some None) = Returned (h', Some None)"
proof (cases p)
  case None
  then show ?thesis by (simp add: sc_cleanup_args_def sc_args_free_def)
next
  case (Some a)
  with assms have "objs h a \<noteq> None" by (simp add: live_or_NULL_def)
  from sc_args_free_live[OF this] Some show ?thesis
    by (simp add: sc_cleanup_args_def sc_args_free_def)
qed

theorem cleanup_twice_witness:
  "\<exists>h'. sc_cleanup_args \<lparr>objs = [0 \<mapsto> zeroed\<lparr>security_tag := Some ''tag''\<rparr>], brk = 1, budget = 0\<rparr>
           (Some (Some 0)) = Returned (h', Some None)
       \<and> h' = \<lparr>objs = Map.empty, brk = 1, budget = 0\<rparr>
       \<and> sc_cleanup_args h' (Some None) = Returned (h', Some None)"
  using cleanup_twice[of "\<lparr>objs = [0 \<mapsto> zeroed\<lparr>security_tag := Some ''tag''\<rparr>], brk = 1, budget = 0\<rparr>"
      "Some 0"]
  by (simp add: live_or_NULL_def)

end
